theory Spec2Isabelle
  imports Main "HOL-Library.Sublist" "HOL-Library.AList"
begin

section \<open>Python values, strings and dictionaries\<close>

text \<open>
  The engine passes JSON-like payloads around. A literal argument value is one of
  the JSON scalars; a dictionary with string keys is an association list that
  keeps Python's insertion order (\<open>d[k] = v\<close> replaces the value of an existing
  key in place and appends a new key at the end, which is \<open>AList.update\<close>).
  A Python \<open>str\<close> is a list of code points; the model covers the code points
  below 256, one \<open>char\<close> each.
\<close>

datatype py_value = PyNone | PyBool bool | PyInt int | PyStr string

type_synonym py_dict = "(string \<times> py_value) list"

definition dict_set :: "py_dict \<Rightarrow> string \<Rightarrow> py_value \<Rightarrow> py_dict" where
  "dict_set d k v = AList.update k v d"

definition dict_has :: "py_dict \<Rightarrow> string \<Rightarrow> bool" where
  "dict_has d k = (k \<in> set (map fst d))"

text \<open>\<open>str.lower()\<close> on code points below 256: A-Z and the Latin-1 capitals move by 32.\<close>

definition lower_char :: "char \<Rightarrow> char" where
  "lower_char c =
     (let n = (of_char c :: nat)
      in if (65 \<le> n \<and> n \<le> 90) \<or> (192 \<le> n \<and> n \<le> 222 \<and> n \<noteq> 215)
         then char_of (n + 32) else c)"

definition lower :: "string \<Rightarrow> string" where
  "lower s = map lower_char s"

text \<open>\<open>sub in s\<close> for strings: \<open>sub\<close> occurs in \<open>s\<close> as a contiguous block.\<close>

primrec py_in :: "string \<Rightarrow> string \<Rightarrow> bool" where
  "py_in sub [] = (sub = [])"
| "py_in sub (c # cs) = (prefix sub (c # cs) \<or> py_in sub cs)"

text \<open>\<open>str(n)\<close> for an integer: decimal digits, with a minus sign when negative.\<close>

definition digit_char :: "nat \<Rightarrow> char" where
  "digit_char d = char_of (48 + d)"

fun str_nat :: "nat \<Rightarrow> string" where
  "str_nat n = (if n < 10 then [digit_char n] else str_nat (n div 10) @ [digit_char (n mod 10)])"

definition str_int :: "int \<Rightarrow> string" where
  "str_int i = (if i < 0 then CHR ''-'' # str_nat (nat (- i)) else str_nat (nat i))"

text \<open>
  \<open>repr(s)\<close> of a string of printable characters: single quotes around it, or
  double quotes when the string holds a single quote and no double quote. (The
  messages built below hold no backslash and never both kinds of quote.)
\<close>

definition py_repr :: "string \<Rightarrow> string" where
  "py_repr s =
     (if CHR 0x27 \<in> set s \<and> CHR 0x22 \<notin> set s
      then [CHR 0x22] @ s @ [CHR 0x22]
      else [CHR 0x27] @ s @ [CHR 0x27])"

section \<open>Failure classification (core/failure\_classifier.py)\<close>

datatype FailureType = TRANSIENT | STRUCTURAL | TERMINAL

definition transient_indicators :: "string list" where
  "transient_indicators =
     [''timeout'', ''timed out'', ''connection error'', ''network error'',
      ''rate limit'', ''temporarily unavailable'', ''service unavailable'',
      ''502'', ''503'', ''504'', ''connection reset'', ''connection refused'']"

definition structural_indicators :: "string list" where
  "structural_indicators =
     [''validation error'', ''schema error'', ''type error'', ''dependency error'',
      ''input should be'', ''invalid argument'', ''cannot be parsed'',
      ''tool not applicable'', ''wrong tool'', ''missing required field'',
      ''unexpected value'', ''does not match'', ''field required'']"

definition terminal_indicators :: "string list" where
  "terminal_indicators =
     [''impossible'', ''unsupported'', ''not supported'', ''cannot be done'',
      ''not allowed'', ''permission denied'', ''access denied'',
      ''authentication failed'', ''unauthorized'', ''forbidden'']"

text \<open>\<open>any(indicator in e for indicator in indicators)\<close>\<close>

definition any_in :: "string list \<Rightarrow> string \<Rightarrow> bool" where
  "any_in indicators e = list_ex (\<lambda>indicator. py_in indicator e) indicators"

text \<open>The \<open>tool_name\<close> argument is accepted and never read, as in the source.\<close>

definition classify_failure :: "string \<Rightarrow> string option \<Rightarrow> FailureType" where
  "classify_failure error tool_name =
     (if error = [] then STRUCTURAL
      else let e = lower error
           in if any_in transient_indicators e then TRANSIENT
              else if any_in structural_indicators e then STRUCTURAL
              else if any_in terminal_indicators e then TERMINAL
              else STRUCTURAL)"

section \<open>Tool results and the Dependency State (tools/responses.py, core/state.py)\<close>

text \<open>
  A tool result is the dictionary built by \<open>tool_response\<close>. A handler may return
  any dictionary with a \<open>success\<close> key, so the \<open>data\<close> and \<open>error\<close> entries
  record whether the key is there at all.
\<close>

datatype data_field = DataAbsent | DataNoValue | DataValue py_value

datatype error_field = ErrAbsent | ErrNone | ErrStr string

record tool_result =
  tr_tool :: string
  tr_success :: bool
  tr_data :: data_field
  tr_error :: error_field

definition tool_response :: "string \<Rightarrow> bool \<Rightarrow> py_value \<Rightarrow> string option \<Rightarrow> tool_result" where
  "tool_response tool success data error =
     \<lparr>tr_tool = tool, tr_success = success, tr_data = DataValue data,
      tr_error = (case error of None \<Rightarrow> ErrNone | Some m \<Rightarrow> ErrStr m)\<rparr>"

text \<open>
  A dependency is a dictionary inside \<open>Step.metadata\<close>, which no schema checks:
  each of its three keys may be missing. A field is \<open>None\<close> when the key is
  absent; a present \<open>from_step\<close> is an integer, a present \<open>from_field\<close> or
  \<open>to_arg\<close> a string. \<open>dep["k"]\<close> raises \<open>KeyError\<close> on an absent key, and
  \<open>dep.get("k")\<close> gives Python's \<open>None\<close>.
\<close>

record dependency =
  from_step :: "int option"
  from_field :: "string option"
  to_arg :: "string option"

text \<open>\<open>DependencyState._state\<close>: a dictionary from step id to the stored tool result.\<close>

type_synonym DependencyState = "int \<rightharpoonup> tool_result"

definition new_state :: DependencyState where
  "new_state = Map.empty"

definition store :: "DependencyState \<Rightarrow> int \<Rightarrow> tool_result \<Rightarrow> DependencyState" where
  "store st sid output = st(sid \<mapsto> output)"

definition get_step_output :: "DependencyState \<Rightarrow> int \<Rightarrow> tool_result option" where
  "get_step_output st sid = st sid"

definition has_step :: "DependencyState \<Rightarrow> int \<Rightarrow> bool" where
  "has_step st sid = (sid \<in> dom st)"

datatype exn =
    KeyError string
  | DependencyResolutionError string
  | OtherError string

fun resolve_dependencies :: "DependencyState \<Rightarrow> py_dict \<Rightarrow> dependency list \<Rightarrow> exn + py_dict" where
  "resolve_dependencies st resolved [] = Inr resolved"
| "resolve_dependencies st resolved (dep # deps) =
     (case from_step dep of
        None \<Rightarrow> Inl (KeyError ''from_step'')
      | Some src \<Rightarrow>
          (case to_arg dep of
             None \<Rightarrow> Inl (KeyError ''to_arg'')
           | Some dst \<Rightarrow>
               (case st src of
                  None \<Rightarrow>
                    Inl (KeyError (''Step '' @ str_int src @ '' not executed or not found in state''))
                | Some step_output \<Rightarrow>
                    (case tr_data step_output of
                       DataAbsent \<Rightarrow>
                         Inl (KeyError (''Step '' @ str_int src @ '' output missing '' @
                                        [CHR 0x27] @ ''data'' @ [CHR 0x27] @ '' field''))
                     | DataNoValue \<Rightarrow>
                         Inl (KeyError (''Step '' @ str_int src @ '' output missing '' @
                                        [CHR 0x27] @ ''data.value'' @ [CHR 0x27] @ '' field''))
                     | DataValue v \<Rightarrow>
                         resolve_dependencies st (dict_set resolved dst v) deps))))"

section \<open>Plans and execution results (tools/schemas.py)\<close>

text \<open>
  \<open>Step.metadata\<close> is read only through \<open>metadata.get("dependencies", [])\<close>;
  the field \<open>dependencies\<close> is that list (empty when the key is absent).
  Timings and log lines are left out.
\<close>

record step =
  step_id :: int
  instruction :: string
  tool_name :: string
  tool_args :: py_dict
  dependencies :: "dependency list"

record PlannerOutput =
  goal :: string
  plan_status :: string
  steps :: "step list"
  fail_reason :: "string option"

datatype exec_status = Skipped | Completed | Failed

record step_result =
  sr_step_id :: int
  sr_tool_name :: string
  sr_success :: bool
  sr_data :: tool_result

text \<open>\<open>ExecutionResult.metadata\<close>: each key the Executor may set, absent when \<open>None\<close>.\<close>

record exec_metadata =
  md_reason :: "string option"
  md_failed_step_id :: "int option"
  md_failed_tool :: "string option"
  md_error :: "string option"
  md_error_type :: "string option"

record ExecutionResult =
  execution_status :: exec_status
  step_results :: "step_result list"
  executed_steps :: nat
  metadata :: exec_metadata

definition no_metadata :: exec_metadata where
  "no_metadata = \<lparr>md_reason = None, md_failed_step_id = None, md_failed_tool = None,
                   md_error = None, md_error_type = None\<rparr>"

section \<open>The Executor (core/executor.py)\<close>

text \<open>
  Tools are external collaborators. \<open>run_tool\<close> is an oracle: given the number of
  collaborator calls made so far in the request (the tick), the tool name, the
  resolved arguments and the step id of the context, it either returns a tool
  result or raises with a message. Every call advances the tick by one, so the
  tick counts the calls made.
\<close>

datatype tool_outcome = Returns tool_result | Raises string

type_synonym run_tool_fn = "nat \<Rightarrow> string \<Rightarrow> py_dict \<Rightarrow> int \<Rightarrow> tool_outcome"

definition execute_single_step ::
  "run_tool_fn \<Rightarrow> DependencyState \<Rightarrow> nat \<Rightarrow> step \<Rightarrow> (exn + step_result) \<times> nat" where
  "execute_single_step run_tool dependency_state tick step =
     (case (if dependencies step \<noteq> []
            then (case resolve_dependencies dependency_state (tool_args step) (dependencies step) of
                    Inl (KeyError m) \<Rightarrow>
                      Inl (DependencyResolutionError
                             (''Step '' @ str_int (step_id step) @
                              '': Failed to resolve dependency - '' @ py_repr m))
                  | Inl e \<Rightarrow> Inl e
                  | Inr resolved \<Rightarrow> Inr resolved)
            else Inr (tool_args step)) of
        Inl e \<Rightarrow> (Inl e, tick)
      | Inr resolved_args \<Rightarrow>
          (case run_tool tick (tool_name step) resolved_args (step_id step) of
             Raises m \<Rightarrow> (Inl (OtherError m), Suc tick)
           | Returns tool_result \<Rightarrow>
               (Inr \<lparr>sr_step_id = step_id step, sr_tool_name = tool_name step,
                     sr_success = tr_success tool_result, sr_data = tool_result\<rparr>,
                Suc tick)))"

definition create_skipped_result :: ExecutionResult where
  "create_skipped_result =
     \<lparr>execution_status = Skipped, step_results = [], executed_steps = 0,
      metadata = no_metadata\<lparr>md_reason := Some ''plan_impossible''\<rparr>\<rparr>"

text \<open>\<open>error or "Unknown error"\<close>: \<open>None\<close> and the empty string are both falsy.\<close>

definition create_failed_result ::
  "step_result list \<Rightarrow> nat \<Rightarrow> step \<Rightarrow> string option \<Rightarrow> ExecutionResult" where
  "create_failed_result results executed failed_step error =
     \<lparr>execution_status = Failed, step_results = results, executed_steps = executed,
      metadata = no_metadata
        \<lparr>md_failed_step_id := Some (step_id failed_step),
         md_failed_tool := Some (tool_name failed_step),
         md_error := Some (case error of None \<Rightarrow> ''Unknown error''
                           | Some m \<Rightarrow> if m = [] then ''Unknown error'' else m)\<rparr>\<rparr>"

definition exception_result ::
  "step_result list \<Rightarrow> nat \<Rightarrow> string \<Rightarrow> string \<Rightarrow> ExecutionResult" where
  "exception_result results executed message error_type =
     \<lparr>execution_status = Failed, step_results = results, executed_steps = executed,
      metadata = no_metadata\<lparr>md_error := Some message, md_error_type := Some error_type\<rparr>\<rparr>"

text \<open>\<open>str(e)\<close> of a caught exception.\<close>

fun str_exn :: "exn \<Rightarrow> string" where
  "str_exn (KeyError m) = py_repr m"
| "str_exn (DependencyResolutionError m) = m"
| "str_exn (OtherError m) = m"

text \<open>\<open>step_result["data"].get("error")\<close>\<close>

fun get_error :: "error_field \<Rightarrow> string option" where
  "get_error ErrAbsent = None"
| "get_error ErrNone = None"
| "get_error (ErrStr m) = Some m"

text \<open>
  What one Executor run leaves behind: the result it returns, the Dependency
  State it owned when it returned (\<open>None\<close> when it never created one), and the
  tick after its last tool call.
\<close>

record exec_run =
  er_result :: ExecutionResult
  er_state :: "DependencyState option"
  er_tick :: nat

text \<open>
  The \<open>for step in planner_output.steps\<close> loop with its \<open>try\<close> block. The log
  line of the failure branch slices \<open>step_result['data'].get('error', 'unknown')\<close>;
  that raises \<open>TypeError\<close> when the tool result holds \<open>error: None\<close>, and the
  \<open>except Exception\<close> handler turns it into an unexpected failure.
\<close>

fun execute_steps ::
  "run_tool_fn \<Rightarrow> step list \<Rightarrow> DependencyState \<Rightarrow> step_result list \<Rightarrow> nat \<Rightarrow> nat \<Rightarrow> exec_run" where
  "execute_steps run_tool [] dependency_state results executed tick =
     \<lparr>er_result = \<lparr>execution_status = Completed, step_results = results,
                   executed_steps = executed, metadata = no_metadata\<rparr>,
      er_state = Some dependency_state, er_tick = tick\<rparr>"
| "execute_steps run_tool (step # rest) dependency_state results executed tick =
     (case execute_single_step run_tool dependency_state tick step of
        (Inl (DependencyResolutionError m), tick') \<Rightarrow>
          \<lparr>er_result = exception_result results executed m ''dependency_resolution'',
           er_state = Some dependency_state, er_tick = tick'\<rparr>
      | (Inl e, tick') \<Rightarrow>
          \<lparr>er_result = exception_result results executed (str_exn e) ''unexpected'',
           er_state = Some dependency_state, er_tick = tick'\<rparr>
      | (Inr step_result, tick') \<Rightarrow>
          (if \<not> sr_success step_result then
             (case tr_error (sr_data step_result) of
                ErrNone \<Rightarrow>
                  \<lparr>er_result = exception_result (results @ [step_result]) (executed + 1)
                      ([CHR 0x27] @ ''NoneType'' @ [CHR 0x27] @ '' object is not subscriptable'')
                      ''unexpected'',
                   er_state = Some dependency_state, er_tick = tick'\<rparr>
              | _ \<Rightarrow>
                  \<lparr>er_result = create_failed_result (results @ [step_result]) (executed + 1) step
                      (get_error (tr_error (sr_data step_result))),
                   er_state = Some dependency_state, er_tick = tick'\<rparr>)
           else execute_steps run_tool rest
                  (store dependency_state (step_id step) (sr_data step_result))
                  (results @ [step_result]) (executed + 1) tick'))"

definition execute_plan :: "run_tool_fn \<Rightarrow> nat \<Rightarrow> PlannerOutput \<Rightarrow> exec_run" where
  "execute_plan run_tool tick planner_output =
     (if plan_status planner_output = ''impossible''
      then \<lparr>er_result = create_skipped_result, er_state = None, er_tick = tick\<rparr>
      else execute_steps run_tool (steps planner_output) new_state [] 0 tick)"

section \<open>Specification-level definitions and example inputs\<close>

text \<open>
  The classifier as the specification words it: a keyword set matches a message
  when some keyword occurs in it as a substring, letter case ignored; the sets
  are tried in the order transient, structural, terminal, and a message that
  matches none is structural.
\<close>

definition matches_ci :: "string list \<Rightarrow> string \<Rightarrow> bool" where
  "matches_ci keywords message = (\<exists>k \<in> set keywords. sublist (lower k) (lower message))"

definition classify_spec :: "string \<Rightarrow> FailureType" where
  "classify_spec message =
     (if matches_ci transient_indicators message then TRANSIENT
      else if matches_ci structural_indicators message then STRUCTURAL
      else if matches_ci terminal_indicators message then TERMINAL
      else STRUCTURAL)"




definition example_step :: "int \<Rightarrow> step" where
  "example_step i =
     \<lparr>step_id = i, instruction = ''compute'', tool_name = ''calculator'',
      tool_args = [(''expression'', PyStr ''1+1'')], dependencies = []\<rparr>"

definition example_plan :: "int list \<Rightarrow> PlannerOutput" where
  "example_plan ids =
     \<lparr>goal = ''add'', plan_status = ''possible'', steps = map example_step ids,
      fail_reason = None\<rparr>"

definition impossible_plan :: PlannerOutput where
  "impossible_plan =
     \<lparr>goal = ''fly'', plan_status = ''impossible'', steps = [],
      fail_reason = Some ''scope_mismatch''\<rparr>"

definition ok_result :: tool_result where
  "ok_result = tool_response ''calculator'' True (PyInt 2) None"

definition timeout_result :: tool_result where
  "timeout_result = tool_response ''calculator'' False PyNone (Some ''Connection timeout'')"

definition failing_tool :: run_tool_fn where
  "failing_tool tick name args sid = Returns timeout_result"

definition second_step_fails :: run_tool_fn where
  "second_step_fails tick name args sid =
     (if sid = 2 then Returns timeout_result else Returns ok_result)"

section \<open>The Plan Validator (core/planner\_validator.py)\<close>

text \<open>
  \<open>_fail\<close> raises \<open>PlannerValidationError\<close> with a dictionary of category, message
  and, when a step is given, its id and tool name. \<open>graph[node]\<close> on a missing key
  raises \<open>KeyError\<close> (\<open>GraphKeyError\<close>), \<open>dep["k"]\<close> on an absent key raises
  \<open>KeyError\<close> (\<open>DepKeyError\<close>), and a method call on \<open>None\<close> raises
  \<open>AttributeError\<close>. A check returns \<open>None\<close> when it passes and the exception
  it raises otherwise.
\<close>

record validation_error =
  ve_category :: string
  ve_message :: string
  ve_step_id :: "int option"
  ve_tool_name :: "string option"

datatype validation_exn =
    PlannerValidationError validation_error
  | GraphKeyError int
  | DepKeyError string
  | AttributeError string

definition fail :: "string \<Rightarrow> string \<Rightarrow> step option \<Rightarrow> validation_exn" where
  "fail category message step_opt =
     PlannerValidationError
       \<lparr>ve_category = category, ve_message = message,
        ve_step_id = map_option step_id step_opt,
        ve_tool_name = map_option tool_name step_opt\<rparr>"

text \<open>The characters \<open>str.strip()\<close> removes, among the code points below 256.\<close>

definition is_space :: "char \<Rightarrow> bool" where
  "is_space c =
     (let n = (of_char c :: nat)
      in (9 \<le> n \<and> n \<le> 13) \<or> (28 \<le> n \<and> n \<le> 32) \<or> n = 133 \<or> n = 160)"

text \<open>
  The loop of \<open>_validate_schema\<close> over the steps, with its running \<open>expected_id\<close>
  and \<open>seen_ids\<close>. The \<open>isinstance\<close> tests hold by the types of the model.
\<close>

fun schema_steps :: "step list \<Rightarrow> int \<Rightarrow> int set \<Rightarrow> validation_exn option" where
  "schema_steps [] expected_id seen_ids = None"
| "schema_steps (step # rest) expected_id seen_ids =
     (if step_id step \<in> seen_ids
      then Some (fail ''SCHEMA_ERROR'' (''Duplicate step_id '' @ str_int (step_id step)) (Some step))
      else if step_id step \<noteq> expected_id
      then Some (fail ''SCHEMA_ERROR'' ''step_id must be sequential starting from 1'' (Some step))
      else if list_all is_space (instruction step)
      then Some (fail ''SCHEMA_ERROR'' ''instruction must be a non-empty string'' (Some step))
      else if step_id step = 1 \<and> dependencies step \<noteq> []
      then Some (fail ''SCHEMA_ERROR'' ''Step 1 must not have dependencies'' (Some step))
      else schema_steps rest (expected_id + 1) (insert (step_id step) seen_ids))"

definition validate_schema :: "PlannerOutput \<Rightarrow> validation_exn option" where
  "validate_schema plan =
     (if plan_status plan \<noteq> ''possible'' \<and> plan_status plan \<noteq> ''impossible''
      then Some (fail ''SCHEMA_ERROR'' ''Invalid plan_status'' None)
      else if plan_status plan = ''impossible''
      then (if steps plan \<noteq> []
            then Some (fail ''SCHEMA_ERROR'' ''Impossible plan must have empty steps'' None)
            else None)
      else if steps plan = []
      then Some (fail ''SCHEMA_ERROR'' ''Possible plan must contain steps'' None)
      else schema_steps (steps plan) 1 {})"

text \<open>\<open>fail_reason\<close> is falsy when it is \<open>None\<close> or the empty string.\<close>

definition validate_fail_reason :: "PlannerOutput \<Rightarrow> validation_exn option" where
  "validate_fail_reason plan =
     (if plan_status plan = ''impossible''
      then (if fail_reason plan = None \<or> fail_reason plan = Some []
            then Some (fail ''SCHEMA_ERROR''
                         ''fail_reason required when plan_status is impossible'' None)
            else None)
      else (if fail_reason plan \<noteq> None \<and> fail_reason plan \<noteq> Some []
            then Some (fail ''SCHEMA_ERROR''
                         ''fail_reason forbidden when plan_status is possible'' None)
            else None))"

text \<open>\<open>to_arg.split(".", 1)[0] in tool_args\<close>\<close>

definition to_arg_root_exists :: "py_dict \<Rightarrow> string \<Rightarrow> bool" where
  "to_arg_root_exists args to = dict_has args (takeWhile (\<lambda>c. c \<noteq> CHR ''.'') to)"

text \<open>
  The inner loop of \<open>_validate_dependencies\<close> over the dependencies of one step.
  \<open>dep["from_field"]\<close> raises \<open>KeyError\<close> when the key is absent. \<open>from_step\<close>
  and \<open>to_arg\<close> are read with \<open>dep.get\<close>: an absent \<open>from_step\<close> is \<open>None\<close>,
  which is in no set of step ids, and an absent \<open>to_arg\<close> is \<open>None\<close>, on which
  \<open>to_arg.split\<close> raises \<open>AttributeError\<close>.
\<close>

fun check_deps :: "int set \<Rightarrow> step \<Rightarrow> dependency list \<Rightarrow> validation_exn option" where
  "check_deps step_ids step [] = None"
| "check_deps step_ids step (dep # deps) =
     (case from_field dep of
        None \<Rightarrow> Some (DepKeyError ''from_field'')
      | Some field \<Rightarrow>
          if field \<noteq> ''data.value''
          then Some (fail ''DEPENDENCY_ERROR''
                       (''Dependencies must target '' @ [CHR 0x27] @ ''data.value'' @ [CHR 0x27])
                       (Some step))
          else (case from_step dep of
                  None \<Rightarrow>
                    Some (fail ''DEPENDENCY_ERROR'' ''Dependency from missing step None'' (Some step))
                | Some src \<Rightarrow>
                    if src \<notin> step_ids
                    then Some (fail ''DEPENDENCY_ERROR''
                                 (''Dependency from missing step '' @ str_int src) (Some step))
                    else if src \<ge> step_id step
                    then Some (fail ''DEPENDENCY_ERROR'' ''Dependency must reference earlier step''
                                 (Some step))
                    else (case to_arg dep of
                            None \<Rightarrow>
                              Some (AttributeError
                                      ([CHR 0x27] @ ''NoneType'' @ [CHR 0x27] @
                                       '' object has no attribute '' @
                                       [CHR 0x27] @ ''split'' @ [CHR 0x27]))
                          | Some dst \<Rightarrow>
                              if \<not> to_arg_root_exists (tool_args step) dst
                              then Some (fail ''DEPENDENCY_ERROR''
                                           (''Invalid to_arg '' @ [CHR 0x27] @ dst @ [CHR 0x27])
                                           (Some step))
                              else check_deps step_ids step deps)))"

fun check_steps :: "int set \<Rightarrow> step list \<Rightarrow> validation_exn option" where
  "check_steps step_ids [] = None"
| "check_steps step_ids (step # rest) =
     (case check_deps step_ids step (dependencies step) of
        Some e \<Rightarrow> Some e
      | None \<Rightarrow> check_steps step_ids rest)"

definition validate_dependencies :: "PlannerOutput \<Rightarrow> validation_exn option" where
  "validate_dependencies plan = check_steps (step_id ` set (steps plan)) (steps plan)"

text \<open>
  The dictionary \<open>graph\<close> of \<open>_validate_no_cycles\<close>: one key per step id, in order of
  first appearance, then the \<open>from_step\<close> of every dependency appended under the id
  of its step. The key appended to is always present, since every step id was
  entered first. \<open>d["from_step"]\<close> raises \<open>KeyError\<close> when the key is absent.
\<close>

definition graph_init :: "step list \<Rightarrow> (int \<times> int list) list" where
  "graph_init ss = foldl (\<lambda>g s. AList.update (step_id s) [] g) [] ss"

definition graph_append :: "(int \<times> int list) list \<Rightarrow> int \<Rightarrow> int \<Rightarrow> (int \<times> int list) list" where
  "graph_append g k v =
     (case map_of g k of None \<Rightarrow> g | Some vs \<Rightarrow> AList.update k (vs @ [v]) g)"

fun graph_deps ::
  "(int \<times> int list) list \<Rightarrow> int \<Rightarrow> dependency list \<Rightarrow> validation_exn + (int \<times> int list) list" where
  "graph_deps g k [] = Inr g"
| "graph_deps g k (d # ds) =
     (case from_step d of
        None \<Rightarrow> Inl (DepKeyError ''from_step'')
      | Some src \<Rightarrow> graph_deps (graph_append g k src) k ds)"

fun graph_steps ::
  "(int \<times> int list) list \<Rightarrow> step list \<Rightarrow> validation_exn + (int \<times> int list) list" where
  "graph_steps g [] = Inr g"
| "graph_steps g (s # ss) =
     (case graph_deps g (step_id s) (dependencies s) of
        Inl e \<Rightarrow> Inl e
      | Inr g' \<Rightarrow> graph_steps g' ss)"

definition build_graph :: "step list \<Rightarrow> validation_exn + (int \<times> int list) list" where
  "build_graph ss = graph_steps (graph_init ss) ss"

text \<open>
  The recursive \<open>dfs\<close> with its two shared sets. \<open>visited\<close> is threaded through
  the calls. \<open>stack\<close> is passed down: a call that returns normally has removed
  exactly the node it added, so the caller continues with the stack it had.
  \<open>dfs_each\<close> is the loop \<open>for parent in graph[node]: dfs(parent)\<close>, and also the
  final loop over the keys of the graph.
\<close>

function dfs :: "(int \<times> int list) list \<Rightarrow> int set \<Rightarrow> int set \<Rightarrow> int \<Rightarrow> validation_exn + int set"
  and dfs_each :: "(int \<times> int list) list \<Rightarrow> int set \<Rightarrow> int set \<Rightarrow> int list \<Rightarrow> validation_exn + int set"
  where
  "dfs graph stack visited node =
     (if node \<in> stack then Inl (fail ''DEPENDENCY_ERROR'' ''Cyclic dependency detected'' None)
      else if node \<in> visited then Inr visited
      else (case map_of graph node of
              None \<Rightarrow> Inl (GraphKeyError node)
            | Some parents \<Rightarrow>
                (case dfs_each graph (insert node stack) visited parents of
                   Inl e \<Rightarrow> Inl e
                 | Inr visited' \<Rightarrow> Inr (insert node visited'))))"
| "dfs_each graph stack visited [] = Inr visited"
| "dfs_each graph stack visited (node # rest) =
     (case dfs graph stack visited node of
        Inl e \<Rightarrow> Inl e
      | Inr visited' \<Rightarrow> dfs_each graph stack visited' rest)"
  by pat_completeness auto
termination
proof (relation "inv_image (less_than <*lex*> less_than)
    (\<lambda>x. case x of
       Inl (graph, stack, visited, node) \<Rightarrow> (card (fst ` set graph - stack), 0)
     | Inr (graph, stack, visited, nodes) \<Rightarrow> (card (fst ` set graph - stack), Suc (length nodes)))")
  show "wf (inv_image (less_than <*lex*> less_than)
    (\<lambda>x. case x of
       Inl (graph, stack, visited, node) \<Rightarrow> (card (fst ` set graph - stack), 0::nat)
     | Inr (graph, stack, visited, nodes) \<Rightarrow> (card (fst ` set graph - stack), Suc (length nodes))))"
    by auto
next
  fix graph :: "(int \<times> int list) list" and stack visited :: "int set" and node :: int
    and parents :: "int list"
  assume "node \<notin> stack" and "map_of graph node = Some parents"
  then have mem: "node \<in> fst ` set graph - stack"
    by (auto dest: map_of_SomeD intro: rev_image_eqI)
  have fin: "finite (fst ` set graph - stack)"
    by simp
  have eq: "fst ` set graph - insert node stack = (fst ` set graph - stack) - {node}"
    by auto
  have "card (fst ` set graph - insert node stack) < card (fst ` set graph - stack)"
    unfolding eq by (rule card_Diff1_less [OF fin mem])
  then show "(Inr (graph, insert node stack, visited, parents), Inl (graph, stack, visited, node))
      \<in> inv_image (less_than <*lex*> less_than)
    (\<lambda>x. case x of
       Inl (graph, stack, visited, node) \<Rightarrow> (card (fst ` set graph - stack), 0)
     | Inr (graph, stack, visited, nodes) \<Rightarrow> (card (fst ` set graph - stack), Suc (length nodes)))"
    by simp
qed simp_all

definition validate_no_cycles :: "PlannerOutput \<Rightarrow> validation_exn option" where
  "validate_no_cycles plan =
     (case build_graph (steps plan) of
        Inl e \<Rightarrow> Some e
      | Inr graph \<Rightarrow>
          (case dfs_each graph {} {} (map fst graph) of Inl e \<Rightarrow> Some e | Inr visited \<Rightarrow> None))"

text \<open>
  The checks of \<open>validate_plan\<close> that do not read the dependency graph are
  parameters: the per-tool argument checks of \<open>_validate_tools\<close> (they call the
  schema library), the query-intent checks and the pipeline checks. The
  properties below hold whatever these decide.
\<close>

record other_checks =
  validate_tools :: "PlannerOutput \<Rightarrow> validation_exn option"
  validate_query_intent :: "PlannerOutput \<Rightarrow> string \<Rightarrow> validation_exn option"
  validate_datetime_usage :: "PlannerOutput \<Rightarrow> string \<Rightarrow> validation_exn option"
  validate_pipelines :: "PlannerOutput \<Rightarrow> validation_exn option"

text \<open>Run the checks in order; the first exception raised ends the validation.\<close>

fun first_failure :: "validation_exn option list \<Rightarrow> validation_exn option" where
  "first_failure [] = None"
| "first_failure (None # rest) = first_failure rest"
| "first_failure (Some e # rest) = Some e"

definition validate_plan ::
  "other_checks \<Rightarrow> PlannerOutput \<Rightarrow> string \<Rightarrow> validation_exn + PlannerOutput" where
  "validate_plan checks plan user_query =
     (case first_failure
             [validate_schema plan,
              validate_fail_reason plan,
              validate_tools checks plan,
              validate_dependencies plan,
              validate_no_cycles plan,
              validate_query_intent checks plan user_query,
              validate_datetime_usage checks plan user_query,
              validate_pipelines checks plan] of
        Some e \<Rightarrow> Inl e
      | None \<Rightarrow> Inr plan)"

text \<open>
  The dependency graph of a plan as a relation: an edge from the id of a step to
  the \<open>from_step\<close> of each of its dependencies that has one. A plan has a cycle
  when some step id reaches itself along one or more edges.
\<close>

definition dep_edges :: "PlannerOutput \<Rightarrow> (int \<times> int) set" where
  "dep_edges plan =
     {(step_id s, src) | s d src.
        s \<in> set (steps plan) \<and> d \<in> set (dependencies s) \<and> from_step d = Some src}"


definition has_cycle :: "PlannerOutput \<Rightarrow> bool" where
  "has_cycle plan = (\<exists>n. (n, n) \<in> (dep_edges plan)\<^sup>+)"

text \<open>
  Example plans with dependencies, and checks that accept every plan. The steps
  call the datetime tool: a step without dependencies asks for the current time
  (operation \<open>now\<close>), a step with dependencies adds one day to a
  \<open>base_datetime\<close> that is \<open>None\<close> in the plan and filled from the outputs of
  the steps it depends on. These are steps that \<open>_validate_tools\<close> accepts: the
  tool is registered, no dependency is embedded in the arguments, the schema
  \<open>DateTimeInput\<close> requires only \<open>operation\<close> (the \<open>None\<close> placeholder is
  filtered out before the schema is applied, and is optional in any case), and
  \<open>_validate_datetime\<close> finds \<open>days\<close> and a dependency for \<open>base_datetime\<close>.
\<close>

definition dep :: "int \<Rightarrow> string \<Rightarrow> dependency" where
  "dep n arg = \<lparr>from_step = Some n, from_field = Some ''data.value'', to_arg = Some arg\<rparr>"

definition dep_step :: "int \<Rightarrow> int list \<Rightarrow> step" where
  "dep_step i froms =
     \<lparr>step_id = i, instruction = ''shift the date'', tool_name = ''datetime'',
      tool_args =
        (if froms = [] then [(''operation'', PyStr ''now'')]
         else [(''operation'', PyStr ''add_days''), (''base_datetime'', PyNone),
               (''days'', PyInt 1)]),
      dependencies = map (\<lambda>n. dep n ''base_datetime'') froms\<rparr>"

definition plan_of :: "step list \<Rightarrow> PlannerOutput" where
  "plan_of ss = \<lparr>goal = ''date'', plan_status = ''possible'', steps = ss, fail_reason = None\<rparr>"

definition chain_plan :: PlannerOutput where
  "chain_plan = plan_of [dep_step 1 [], dep_step 2 [1], dep_step 3 [2, 1]]"



text \<open>
  The cyclic plan again, with dependency entries that carry \<open>from_step\<close> and
  \<open>to_arg\<close> only.
\<close>

definition bare_dep_step :: "int \<Rightarrow> int list \<Rightarrow> step" where
  "bare_dep_step i froms =
     (dep_step i froms)
       \<lparr>dependencies :=
          map (\<lambda>n. \<lparr>from_step = Some n, from_field = None, to_arg = Some ''base_datetime''\<rparr>) froms\<rparr>"

definition bare_cyclic_plan :: PlannerOutput where
  "bare_cyclic_plan = plan_of [dep_step 1 [], bare_dep_step 2 [3], bare_dep_step 3 [2]]"

definition permissive_checks :: other_checks where
  "permissive_checks =
     \<lparr>validate_tools = (\<lambda>plan. None), validate_query_intent = (\<lambda>plan q. None),
      validate_datetime_usage = (\<lambda>plan q. None), validate_pipelines = (\<lambda>plan. None)\<rparr>"

text \<open>
  A graph dictionary is sound for a set of edges when every entry of every
  adjacency list is an edge of the set.
\<close>

definition edge_sound :: "(int \<times> int) set \<Rightarrow> (int \<times> int list) list \<Rightarrow> bool" where
  "edge_sound E g = (\<forall>k ps q. map_of g k = Some ps \<longrightarrow> q \<in> set ps \<longrightarrow> (k, q) \<in> E)"

section \<open>The Replanner and the Recovery Loop (core/replanner.py, core/agent.py)\<close>

text \<open>The limits of app/config.py; \<open>validate_config\<close> asserts that the retry limit is not negative.\<close>

record config =
  MAX_RETRIES_PER_STEP :: nat
  MAX_REPLANS_PER_RUN :: nat

definition app_config :: config where
  "app_config = \<lparr>MAX_RETRIES_PER_STEP = 2, MAX_REPLANS_PER_RUN = 1\<rparr>"

text \<open>The keys of \<open>TOOL_REGISTRY\<close> (tools/registry.py).\<close>

definition TOOL_REGISTRY :: "string list" where
  "TOOL_REGISTRY =
     [''calculator'', ''text_transform'', ''datetime'', ''normalize_datetime'',
      ''weather'', ''web_search'', ''combine_search_results'', ''extract_from_text'']"

text \<open>
  The collaborators of one request. Each is asked at a tick, the number of
  collaborator calls made before: the tools, the quota (\<open>quota.can_call\<close>), and
  the planner in repair mode (\<open>plan_gateway(mode="replan")\<close>, which returns a
  parsed plan or raises with a message). The per-tool and query checks of the
  validator come with the environment as well.
\<close>

record env =
  env_run_tool :: run_tool_fn
  env_can_call :: "nat \<Rightarrow> bool"
  env_plan_gateway :: "nat \<Rightarrow> string \<Rightarrow> PlannerOutput \<Rightarrow> ExecutionResult \<Rightarrow> string + PlannerOutput"
  env_checks :: other_checks

text \<open>What the \<open>try\<close> block of the replanning branch can raise.\<close>

datatype replan_exn =
    QuotaExceeded string
  | PlannerError string
  | ValidationFailed validation_exn

fun validate_tools_exist :: "step list \<Rightarrow> validation_exn option" where
  "validate_tools_exist [] = None"
| "validate_tools_exist (step # rest) =
     (if tool_name step \<notin> set TOOL_REGISTRY
      then Some (PlannerValidationError
                   \<lparr>ve_category = ''REPLAN_TOOL_ERROR'',
                    ve_message = ''Replanner used unknown tool '' @ [CHR 0x27] @ tool_name step @ [CHR 0x27],
                    ve_step_id = Some (step_id step), ve_tool_name = Some (tool_name step)\<rparr>)
      else validate_tools_exist rest)"

text \<open>
  \<open>replan_gateway\<close>: ask the planner for a repaired plan, check that its tools
  exist, then run the full validator. Both of its \<open>except\<close> clauses re-raise.
\<close>

definition replan_gateway ::
  "env \<Rightarrow> nat \<Rightarrow> PlannerOutput \<Rightarrow> ExecutionResult \<Rightarrow> string \<Rightarrow> replan_exn + PlannerOutput" where
  "replan_gateway env tick original_plan execution_result user_input =
     (case env_plan_gateway env tick user_input original_plan execution_result of
        Inl m \<Rightarrow> Inl (PlannerError m)
      | Inr planner_output \<Rightarrow>
          (case validate_tools_exist (steps planner_output) of
             Some e \<Rightarrow> Inl (ValidationFailed e)
           | None \<Rightarrow>
               (case validate_plan (env_checks env) planner_output user_input of
                  Inl e \<Rightarrow> Inl (ValidationFailed e)
                | Inr normalized_plan \<Rightarrow> Inr normalized_plan)))"

fun get_tool_name :: "step list \<Rightarrow> int option \<Rightarrow> string option" where
  "get_tool_name ss None = None"
| "get_tool_name [] (Some i) = None"
| "get_tool_name (step # rest) (Some i) =
     (if step_id step = i then Some (tool_name step) else get_tool_name rest (Some i))"

text \<open>
  How one pass of the \<open>while True\<close> loop ended. The trace of decisions is kept
  for the properties only: each pass runs the Executor once and adds one
  decision, so the length of the trace is the number of Executor runs.
\<close>

datatype decision =
    Succeeded
  | Retried "int option"
  | RetryExhausted "int option"
  | Replanned
  | ReplanFailed replan_exn
  | ReplanExhausted
  | TerminalStop

text \<open>
  The local variables of \<open>run_with_recovery\<close>: \<open>plan\<close>, \<open>retries\<close> (a dictionary
  keyed by \<open>failed_step_id\<close>, which is \<open>None\<close> when the result names no step) and
  \<open>replans\<close>; with them the tick and the trace.
\<close>

record loop_state =
  ls_plan :: PlannerOutput
  ls_retries :: "int option \<rightharpoonup> nat"
  ls_replans :: nat
  ls_tick :: nat
  ls_trace :: "decision list"

text \<open>
  What \<open>run_with_recovery\<close> returns, \<open>(executor_output, plan)\<close>, and the values
  its local variables, the tick and the trace had when it returned.
\<close>

record recovery_outcome =
  ro_result :: ExecutionResult
  ro_plan :: PlannerOutput
  ro_retries :: "int option \<rightharpoonup> nat"
  ro_replans :: nat
  ro_tick :: nat
  ro_trace :: "decision list"

definition finish ::
  "loop_state \<Rightarrow> ExecutionResult \<Rightarrow> (int option \<rightharpoonup> nat) \<Rightarrow> nat \<Rightarrow> nat \<Rightarrow> decision \<Rightarrow> recovery_outcome" where
  "finish st executor_output retries replans tick d =
     \<lparr>ro_result = executor_output, ro_plan = ls_plan st, ro_retries = retries,
      ro_replans = replans, ro_tick = tick, ro_trace = ls_trace st @ [d]\<rparr>"

text \<open>\<open>retries.setdefault(k, 0)\<close> followed by a read: the count of \<open>k\<close>, 0 when absent.\<close>

definition count_of :: "(int option \<rightharpoonup> nat) \<Rightarrow> int option \<Rightarrow> nat" where
  "count_of retries k = (case retries k of None \<Rightarrow> 0 | Some n \<Rightarrow> n)"

text \<open>
  The body of the \<open>while True\<close> loop: \<open>Inl\<close> is \<open>continue\<close> with the new values
  of the variables, \<open>Inr\<close> is \<open>return\<close>. \<open>QuotaExceeded\<close> is raised inside the
  \<open>try\<close> block, after \<open>replans\<close> was incremented, and \<open>except Exception\<close> catches
  it like any failure of \<open>replan_gateway\<close>.
\<close>

definition recovery_step ::
  "env \<Rightarrow> config \<Rightarrow> string \<Rightarrow> loop_state \<Rightarrow> loop_state + recovery_outcome" where
  "recovery_step env cfg user_input st =
     (let run = execute_plan (env_run_tool env) (ls_tick st) (ls_plan st);
          executor_output = er_result run;
          tick = er_tick run
      in if execution_status executor_output = Completed
         then Inr (finish st executor_output (ls_retries st) (ls_replans st) tick Succeeded)
         else
           let error = (case md_error (metadata executor_output) of None \<Rightarrow> [] | Some m \<Rightarrow> m);
               failed_step_id = md_failed_step_id (metadata executor_output);
               failed_tool = get_tool_name (steps (ls_plan st)) failed_step_id;
               failure_type = classify_failure error failed_tool
           in if failure_type = TRANSIENT then
                (let n = count_of (ls_retries st) failed_step_id + 1;
                     retries = (ls_retries st)(failed_step_id \<mapsto> n)
                 in if n \<le> MAX_RETRIES_PER_STEP cfg
                    then Inl (st\<lparr>ls_retries := retries, ls_tick := tick,
                                 ls_trace := ls_trace st @ [Retried failed_step_id]\<rparr>)
                    else Inr (finish st executor_output retries (ls_replans st) tick
                                (RetryExhausted failed_step_id)))
              else if failure_type = STRUCTURAL then
                (if ls_replans st < MAX_REPLANS_PER_RUN cfg then
                   (let replans = ls_replans st + 1
                    in if \<not> env_can_call env tick
                       then Inr (finish st executor_output (ls_retries st) replans (Suc tick)
                                   (ReplanFailed
                                      (QuotaExceeded ''Quota exhausted during replanning phase'')))
                       else (case replan_gateway env (Suc tick) (ls_plan st) executor_output
                                    user_input of
                               Inl e \<Rightarrow>
                                 Inr (finish st executor_output (ls_retries st) replans
                                        (Suc (Suc tick)) (ReplanFailed e))
                             | Inr plan \<Rightarrow>
                                 Inl (st\<lparr>ls_plan := plan, ls_replans := replans,
                                         ls_tick := Suc (Suc tick),
                                         ls_trace := ls_trace st @ [Replanned]\<rparr>)))
                 else Inr (finish st executor_output (ls_retries st) (ls_replans st) tick
                             ReplanExhausted))
              else Inr (finish st executor_output (ls_retries st) (ls_replans st) tick
                          TerminalStop))"

text \<open>
  The retry budget left for the current plan: over the keys a result of this
  plan can name (its step ids, and \<open>None\<close>), the retries still allowed.
\<close>

definition plan_keys :: "PlannerOutput \<Rightarrow> int option set" where
  "plan_keys plan = insert None (Some ` step_id ` set (steps plan))"

definition retry_budget :: "config \<Rightarrow> loop_state \<Rightarrow> nat" where
  "retry_budget cfg st =
     (\<Sum>k \<in> plan_keys (ls_plan st). Suc (MAX_RETRIES_PER_STEP cfg) - count_of (ls_retries st) k)"

function run_loop :: "env \<Rightarrow> config \<Rightarrow> string \<Rightarrow> loop_state \<Rightarrow> recovery_outcome" where
  "run_loop env cfg user_input st =
     (case recovery_step env cfg user_input st of
        Inl st' \<Rightarrow> run_loop env cfg user_input st'
      | Inr outcome \<Rightarrow> outcome)"
  by pat_completeness auto
termination
proof (relation "inv_image (less_than <*lex*> less_than)
    (\<lambda>(env, cfg, user_input, st). (MAX_REPLANS_PER_RUN cfg - ls_replans st, retry_budget cfg st))")
  show "wf (inv_image (less_than <*lex*> less_than)
    (\<lambda>(env, cfg, user_input, st). (MAX_REPLANS_PER_RUN cfg - ls_replans st, retry_budget cfg st)))"
    by auto
next
  fix env :: env and cfg :: config and user_input :: string and st st' :: loop_state
  assume step: "recovery_step env cfg user_input st = Inl st'"
  define out where "out = er_result (execute_plan (env_run_tool env) (ls_tick st) (ls_plan st))"
  define k where "k = md_failed_step_id (metadata out)"
  have steps_key: "md_failed_step_id (metadata (er_result (execute_steps rt ss dstate results executed tick)))
      \<in> insert None (Some ` step_id ` set ss)" for rt ss dstate results executed tick
  proof (induction ss arbitrary: dstate results executed tick)
    case Nil
    show ?case by (simp add: no_metadata_def)
  next
    case (Cons s ss)
    obtain res tick' where res: "execute_single_step rt dstate tick s = (res, tick')"
      by (cases "execute_single_step rt dstate tick s")
    show ?case
    proof (cases res)
      case (Inl e)
      with res show ?thesis
        by (cases e) (simp_all add: exception_result_def no_metadata_def)
    next
      case (Inr sr)
      show ?thesis
      proof (cases "sr_success sr")
        case True
        with res Inr Cons.IH [of "store dstate (step_id s) (sr_data sr)" "results @ [sr]"
            "executed + 1" tick']
        show ?thesis by auto
      next
        case False
        with res Inr show ?thesis
          by (cases "tr_error (sr_data sr)")
             (simp_all add: exception_result_def create_failed_result_def no_metadata_def)
      qed
    qed
  qed
  have key: "k \<in> plan_keys (ls_plan st)"
    unfolding k_def out_def plan_keys_def execute_plan_def
    using steps_key by (simp add: create_skipped_result_def no_metadata_def)
  have fin: "finite (plan_keys (ls_plan st))"
    by (simp add: plan_keys_def)
  consider
    (retry) "ls_plan st' = ls_plan st" "ls_replans st' = ls_replans st"
      "ls_retries st' = (ls_retries st)(k \<mapsto> count_of (ls_retries st) k + 1)"
      "count_of (ls_retries st) k + 1 \<le> MAX_RETRIES_PER_STEP cfg"
  | (replan) "ls_replans st' = ls_replans st + 1" "ls_replans st < MAX_REPLANS_PER_RUN cfg"
    using step unfolding recovery_step_def k_def out_def
    by (auto simp: Let_def split: if_splits sum.splits)
  then show "((env, cfg, user_input, st'), (env, cfg, user_input, st))
      \<in> inv_image (less_than <*lex*> less_than)
    (\<lambda>(env, cfg, user_input, st). (MAX_REPLANS_PER_RUN cfg - ls_replans st, retry_budget cfg st))"
  proof cases
    case retry
    have "retry_budget cfg st' < retry_budget cfg st"
      unfolding retry_budget_def retry(1)
    proof (rule sum_strict_mono_ex1 [OF fin])
      show "\<forall>j\<in>plan_keys (ls_plan st).
          Suc (MAX_RETRIES_PER_STEP cfg) - count_of (ls_retries st') j
          \<le> Suc (MAX_RETRIES_PER_STEP cfg) - count_of (ls_retries st) j"
        by (auto simp: retry(3) count_of_def)
      show "\<exists>j\<in>plan_keys (ls_plan st).
          Suc (MAX_RETRIES_PER_STEP cfg) - count_of (ls_retries st') j
          < Suc (MAX_RETRIES_PER_STEP cfg) - count_of (ls_retries st) j"
        using key retry(4) by (intro bexI [of _ k]) (auto simp: retry(3) count_of_def)
    qed
    with retry(2) show ?thesis by simp
  next
    case replan
    then have "MAX_REPLANS_PER_RUN cfg - ls_replans st' < MAX_REPLANS_PER_RUN cfg - ls_replans st"
      by arith
    then show ?thesis by simp
  qed
qed

text \<open>\<open>run_with_recovery\<close>, started at a tick, with the limits as a parameter.\<close>

definition run_with_recovery ::
  "env \<Rightarrow> config \<Rightarrow> nat \<Rightarrow> string \<Rightarrow> PlannerOutput \<Rightarrow> recovery_outcome" where
  "run_with_recovery env cfg tick user_input initial_plan =
     run_loop env cfg user_input
       \<lparr>ls_plan = initial_plan, ls_retries = Map.empty, ls_replans = 0,
        ls_tick = tick, ls_trace = []\<rparr>"

section \<open>Invariants, hypotheses and example environments of the Recovery Loop\<close>

text \<open>
  The sum of all retry counts, and the invariant that holds each time the loop
  starts a pass: every count is within the limit, the trace holds one
  \<open>Retried k\<close> for each count of \<open>k\<close> and one \<open>Replanned\<close> for each replan.
\<close>

definition total_retries :: "(int option \<rightharpoonup> nat) \<Rightarrow> nat" where
  "total_retries retries = (\<Sum>k \<in> dom retries. count_of retries k)"

definition loop_inv :: "config \<Rightarrow> loop_state \<Rightarrow> bool" where
  "loop_inv cfg st \<longleftrightarrow>
     finite (dom (ls_retries st)) \<and>
     (\<forall>k. count_of (ls_retries st) k \<le> MAX_RETRIES_PER_STEP cfg) \<and>
     ls_replans st \<le> MAX_REPLANS_PER_RUN cfg \<and>
     length (ls_trace st) = total_retries (ls_retries st) + ls_replans st \<and>
     (\<forall>k. count_list (ls_trace st) (Retried k) = count_of (ls_retries st) k) \<and>
     (\<forall>k. count_list (ls_trace st) (RetryExhausted k) = 0)"

text \<open>
  What holds of every outcome: the bound on the number of Executor runs, the
  bound on the retries of each key, and the agreement of the final \<open>retries\<close>
  dictionary with the trace.
\<close>

definition outcome_ok :: "config \<Rightarrow> recovery_outcome \<Rightarrow> bool" where
  "outcome_ok cfg outcome \<longleftrightarrow>
     length (ro_trace outcome)
       \<le> 1 + MAX_REPLANS_PER_RUN cfg + MAX_RETRIES_PER_STEP cfg * card (dom (ro_retries outcome)) \<and>
     (\<forall>k. count_list (ro_trace outcome) (Retried k) \<le> MAX_RETRIES_PER_STEP cfg) \<and>
     (\<forall>k. count_of (ro_retries outcome) k =
          count_list (ro_trace outcome) (Retried k) + count_list (ro_trace outcome) (RetryExhausted k)) \<and>
     ro_replans outcome \<le> MAX_REPLANS_PER_RUN cfg"

text \<open>
  An Executor result that failed at step \<open>k\<close> with an error that the
  classifier, called as the loop calls it, finds TRANSIENT.
\<close>

definition fails_transiently_at :: "PlannerOutput \<Rightarrow> int \<Rightarrow> ExecutionResult \<Rightarrow> bool" where
  "fails_transiently_at plan k r \<longleftrightarrow>
     execution_status r = Failed \<and> md_failed_step_id (metadata r) = Some k \<and>
     classify_failure (case md_error (metadata r) of None \<Rightarrow> [] | Some m \<Rightarrow> m)
       (get_tool_name (steps plan) (Some k)) = TRANSIENT"

text \<open>
  Hypotheses on the tools and on a list of steps: every dependency carries the
  keys \<open>from_step\<close> and \<open>to_arg\<close> and names the id of a step that comes earlier
  in the list; the tool of a step succeeds on every call, with a \<open>data.value\<close>;
  the tool of a step fails on every call with an error message classified
  TRANSIENT.
\<close>

definition resolvable :: "int set \<Rightarrow> dependency \<Rightarrow> bool" where
  "resolvable ids d \<longleftrightarrow>
     (case from_step d of None \<Rightarrow> False | Some src \<Rightarrow> src \<in> ids) \<and> to_arg d \<noteq> None"

fun deps_earlier :: "int set \<Rightarrow> step list \<Rightarrow> bool" where
  "deps_earlier ids [] = True"
| "deps_earlier ids (s # ss) =
     (list_all (resolvable ids) (dependencies s) \<and> deps_earlier (insert (step_id s) ids) ss)"

definition tool_succeeds :: "run_tool_fn \<Rightarrow> step \<Rightarrow> bool" where
  "tool_succeeds rt s \<longleftrightarrow>
     (\<forall>tick args. \<exists>r v. rt tick (tool_name s) args (step_id s) = Returns r \<and>
        tr_success r \<and> tr_data r = DataValue v)"

definition tool_fails_transiently :: "run_tool_fn \<Rightarrow> step \<Rightarrow> bool" where
  "tool_fails_transiently rt s \<longleftrightarrow>
     (\<forall>tick args. \<exists>r m. rt tick (tool_name s) args (step_id s) = Returns r \<and>
        \<not> tr_success r \<and> tr_error r = ErrStr m \<and>
        classify_failure m (Some (tool_name s)) = TRANSIENT)"

text \<open>
  A Dependency State that holds an output with a \<open>data.value\<close> for each of the ids.
\<close>

definition has_values :: "int set \<Rightarrow> DependencyState \<Rightarrow> bool" where
  "has_values ids st \<longleftrightarrow> (\<forall>i \<in> ids. \<exists>output v. st i = Some output \<and> tr_data output = DataValue v)"

text \<open>
  Example collaborators: a tool whose first step times out on the first two
  calls and whose other steps always time out; a planner that is down; a quota
  that is exhausted; a tool that times out except on its third call, with a
  planner that answers every repair with a one-step plan.
\<close>

definition flaky_tool :: run_tool_fn where
  "flaky_tool tick name args sid =
     (if sid = 1 \<and> 2 \<le> tick then Returns ok_result else Returns timeout_result)"

definition no_replan :: "nat \<Rightarrow> string \<Rightarrow> PlannerOutput \<Rightarrow> ExecutionResult \<Rightarrow> string + PlannerOutput" where
  "no_replan tick user_input plan result = Inl ''planner unavailable''"

definition quota_left :: "nat \<Rightarrow> bool" where
  "quota_left tick = True"

definition quota_exhausted :: "nat \<Rightarrow> bool" where
  "quota_exhausted tick = False"

definition flaky_env :: env where
  "flaky_env = \<lparr>env_run_tool = flaky_tool, env_can_call = quota_left,
     env_plan_gateway = no_replan, env_checks = permissive_checks\<rparr>"

definition second_fails_env :: env where
  "second_fails_env = \<lparr>env_run_tool = second_step_fails, env_can_call = quota_left,
     env_plan_gateway = no_replan, env_checks = permissive_checks\<rparr>"

definition invalid_arg_result :: tool_result where
  "invalid_arg_result = tool_response ''calculator'' False PyNone (Some ''Invalid argument type'')"

definition invalid_arg_tool :: run_tool_fn where
  "invalid_arg_tool tick name args sid = Returns invalid_arg_result"

definition no_quota_env :: env where
  "no_quota_env = \<lparr>env_run_tool = invalid_arg_tool, env_can_call = quota_exhausted,
     env_plan_gateway = no_replan, env_checks = permissive_checks\<rparr>"

definition scripted_tool :: run_tool_fn where
  "scripted_tool tick name args sid =
     (if tick = 2 then Returns invalid_arg_result else Returns timeout_result)"

definition same_plan_gateway :: "nat \<Rightarrow> string \<Rightarrow> PlannerOutput \<Rightarrow> ExecutionResult \<Rightarrow> string + PlannerOutput" where
  "same_plan_gateway tick user_input plan result = Inr (example_plan [1])"

definition scripted_env :: env where
  "scripted_env = \<lparr>env_run_tool = scripted_tool, env_can_call = quota_left,
     env_plan_gateway = same_plan_gateway, env_checks = permissive_checks\<rparr>"

text \<open>A tool that times out on the first call of the request and for every step but the first.\<close>

definition slow_start_tool :: run_tool_fn where
  "slow_start_tool tick name args sid =
     (if sid = 1 \<and> 1 \<le> tick then Returns ok_result else Returns timeout_result)"

definition slow_start_env :: env where
  "slow_start_env = \<lparr>env_run_tool = slow_start_tool, env_can_call = quota_left,
     env_plan_gateway = no_replan, env_checks = permissive_checks\<rparr>"

definition two_step_plan :: PlannerOutput where
  "two_step_plan = plan_of [dep_step 1 [], dep_step 2 [1]]"

section \<open>Properties\<close>

subsection \<open>Substring test\<close>

lemma py_in_sublist: "py_in sub s \<longleftrightarrow> sublist sub s"
  by (induction s) (simp_all add: sublist_Cons_right)

subsection \<open>Failure classifier\<close>

lemma lower_transient: "map lower transient_indicators = transient_indicators"
  by code_simp

lemma lower_structural: "map lower structural_indicators = structural_indicators"
  by code_simp

lemma lower_terminal: "map lower terminal_indicators = terminal_indicators"
  by code_simp

lemma any_in_matches_ci:
  assumes "map lower ks = ks"
  shows "any_in ks (lower m) = matches_ci ks m"
proof -
  have "\<And>k. k \<in> set ks \<Longrightarrow> lower k = k"
    using assms by (metis map_eq_conv list.map_id id_apply)
  then show ?thesis
    by (auto simp: any_in_def matches_ci_def list_ex_iff py_in_sublist)
qed

lemma matches_ci_empty: "[] \<notin> set ks \<Longrightarrow> \<not> matches_ci ks []"
  by (auto simp: matches_ci_def lower_def)

lemma classify_eq: "classify_failure message tn = classify_spec message"
proof (cases "message = []")
  case True
  have "\<not> matches_ci transient_indicators []" "\<not> matches_ci terminal_indicators []"
    by (rule matches_ci_empty; code_simp)+
  then show ?thesis using True by (simp add: classify_failure_def classify_spec_def)
next
  case False
  then show ?thesis
    by (simp add: classify_failure_def classify_spec_def Let_def any_in_matches_ci
        lower_transient lower_structural lower_terminal)
qed

text \<open>
  C6: \<open>classify_failure\<close> depends on the error message only; the four messages of
  the specification are classified TRANSIENT, STRUCTURAL, TERMINAL and STRUCTURAL;
  and on every message it agrees with the specification's classifier: keyword
  sets matched by substring with letter case ignored, tried in the order
  transient, structural, terminal, with STRUCTURAL for a message matching none.
\<close>

theorem classify_failure_spec:
  "classify_failure ''Connection timeout'' tn = TRANSIENT
   \<and> classify_failure ''Input should be a valid integer'' tn = STRUCTURAL
   \<and> classify_failure ''Permission denied'' tn = TERMINAL
   \<and> classify_failure [] tn = STRUCTURAL
   \<and> classify_failure message tn = classify_spec message"
proof -
  have "classify_failure ''Connection timeout'' None = TRANSIENT" by code_simp
  moreover have "classify_failure ''Input should be a valid integer'' None = STRUCTURAL"
    by code_simp
  moreover have "classify_failure ''Permission denied'' None = TERMINAL" by code_simp
  moreover have "classify_failure [] None = STRUCTURAL" by code_simp
  ultimately show ?thesis by (simp add: classify_eq)
qed

theorem classify_failure_spec_witness:
  "classify_failure ''HTTP 503: Service Unavailable'' (Some ''weather'') = TRANSIENT
   \<and> classify_spec ''HTTP 503: Service Unavailable'' = TRANSIENT"
  using classify_failure_spec [of "Some ''weather''" "''HTTP 503: Service Unavailable''"]
  by code_simp

subsection \<open>Dependency State\<close>

text \<open>
  C7 (as stated, refuted): a second \<open>store\<close> under a step id that is already
  stored does not fail; the value read back afterwards is the second one.
\<close>

theorem store_twice_overwrites:
  "get_step_output (store (store new_state 1 ok_result) 1 timeout_result) 1 = Some timeout_result \<and>
   get_step_output (store (store new_state 1 ok_result) 1 timeout_result) 1 \<noteq> Some ok_result"
  by (simp add: store_def get_step_output_def ok_result_def timeout_result_def tool_response_def)

text \<open>
  C7 (amended): \<open>store\<close> never fails; storing twice under one step id leaves the
  state that the second store alone would leave, and the second value is the
  one read back.
\<close>

theorem store_replaces:
  "get_step_output (store (store st sid a) sid b) sid = Some b \<and>
   store (store st sid a) sid b = store st sid b"
  by (simp add: store_def get_step_output_def)

subsection \<open>Executor\<close>








text \<open>
  C4: for a plan with status impossible, \<open>execute_plan\<close> returns status skipped
  with no executed step and no step result; no tool is called (the tick does not
  move) and no Dependency State is created.
\<close>

theorem impossible_plan_skipped:
  "plan_status p = ''impossible'' \<Longrightarrow>
   execution_status (er_result (execute_plan rt tick p)) = Skipped \<and>
   executed_steps (er_result (execute_plan rt tick p)) = 0 \<and>
   step_results (er_result (execute_plan rt tick p)) = [] \<and>
   er_tick (execute_plan rt tick p) = tick \<and>
   er_state (execute_plan rt tick p) = None"
  by (simp add: execute_plan_def create_skipped_result_def)

theorem impossible_plan_skipped_witness:
  "plan_status impossible_plan = ''impossible'' \<and>
   execution_status (er_result (execute_plan failing_tool 7 impossible_plan)) = Skipped \<and>
   executed_steps (er_result (execute_plan failing_tool 7 impossible_plan)) = 0 \<and>
   step_results (er_result (execute_plan failing_tool 7 impossible_plan)) = [] \<and>
   er_tick (execute_plan failing_tool 7 impossible_plan) = 7 \<and>
   er_state (execute_plan failing_tool 7 impossible_plan) = None"
proof -
  have h: "plan_status impossible_plan = ''impossible''"
    by (simp add: impossible_plan_def)
  show ?thesis
    using impossible_plan_skipped [OF h, of failing_tool 7] h by simp
qed

subsection \<open>Plan Validator\<close>

lemma check_deps_None:
  "check_deps ids s ds = None \<Longrightarrow> d \<in> set ds \<Longrightarrow>
   \<exists>src. from_step d = Some src \<and> src \<in> ids \<and> src < step_id s"
  by (induction ds) (auto split: if_splits option.splits)

lemma check_steps_None:
  "check_steps ids ss = None \<Longrightarrow> s \<in> set ss \<Longrightarrow> d \<in> set (dependencies s) \<Longrightarrow>
   \<exists>src. from_step d = Some src \<and> src \<in> ids \<and> src < step_id s"
  by (induction ss) (auto split: option.splits dest: check_deps_None)



lemma dep_edgesI:
  "s \<in> set (steps p) \<Longrightarrow> d \<in> set (dependencies s) \<Longrightarrow> from_step d = Some src \<Longrightarrow>
   (step_id s, src) \<in> dep_edges p"
  by (auto simp: dep_edges_def)

lemma validated_edges_decrease:
  assumes "validate_dependencies p = None" and "(a, b) \<in> dep_edges p"
  shows "b < a \<and> b \<in> step_id ` set (steps p)"
proof -
  from assms(2) obtain s d where sd: "s \<in> set (steps p)" "d \<in> set (dependencies s)"
    "from_step d = Some b" "a = step_id s"
    by (auto simp: dep_edges_def)
  from assms(1) have "check_steps (step_id ` set (steps p)) (steps p) = None"
    by (simp add: validate_dependencies_def)
  from check_steps_None [OF this sd(1,2)] sd(3,4) show ?thesis
    by auto
qed

lemma decreasing_trancl:
  assumes "\<And>a b. (a, b) \<in> E \<Longrightarrow> b < (a::int)"
  shows "(a, b) \<in> E\<^sup>+ \<Longrightarrow> b < a"
  by (induction rule: trancl.induct) (auto dest: assms)

lemma validated_acyclic:
  assumes "validate_dependencies p = None"
  shows "\<not> has_cycle p"
proof
  assume "has_cycle p"
  then obtain n where "(n, n) \<in> (dep_edges p)\<^sup>+"
    by (auto simp: has_cycle_def)
  then have "n < n"
    using decreasing_trancl [of "dep_edges p" n n] validated_edges_decrease [OF assms]
    by blast
  then show False by simp
qed

lemma graph_init_keys_aux:
  "fst ` set (foldl (\<lambda>g s. AList.update (step_id s) [] g) g0 ss) = fst ` set g0 \<union> step_id ` set ss"
  by (induction ss arbitrary: g0) (auto simp: dom_update)

lemma graph_init_keys: "fst ` set (graph_init ss) = step_id ` set ss"
  by (simp add: graph_init_def graph_init_keys_aux)

lemma graph_init_vals_aux:
  "(\<forall>k ps. map_of g0 k = Some ps \<longrightarrow> ps = []) \<Longrightarrow>
   map_of (foldl (\<lambda>g s. AList.update (step_id s) [] g) g0 ss) k = Some ps \<Longrightarrow> ps = []"
proof (induction ss arbitrary: g0)
  case Nil
  then show ?case by simp
next
  case (Cons s ss)
  have "\<forall>k ps. map_of (AList.update (step_id s) [] g0) k = Some ps \<longrightarrow> ps = []"
    using Cons.prems(1) by (auto simp: update_conv')
  from Cons.IH [OF this] Cons.prems(2) show ?case by simp
qed

lemma graph_init_vals: "map_of (graph_init ss) k = Some ps \<Longrightarrow> ps = []"
  unfolding graph_init_def by (rule graph_init_vals_aux [of "[]"]) simp_all

lemma graph_append_keys: "fst ` set (graph_append g k v) = fst ` set g"
  by (auto simp: graph_append_def dom_update split: option.splits dest: map_of_SomeD
      intro: rev_image_eqI)

lemma graph_append_lookup:
  "map_of (graph_append g k v) k' = Some ps \<Longrightarrow>
   (k' = k \<and> (\<exists>qs. map_of g k = Some qs \<and> ps = qs @ [v])) \<or> map_of g k' = Some ps"
  by (auto simp: graph_append_def update_conv' split: option.splits if_splits)

lemma edge_sound_append:
  "edge_sound E g \<Longrightarrow> (k, v) \<in> E \<Longrightarrow> edge_sound E (graph_append g k v)"
  unfolding edge_sound_def by (fastforce dest: graph_append_lookup)

lemma graph_deps_sound:
  "graph_deps g k ds = Inr g' \<Longrightarrow> edge_sound E g \<Longrightarrow>
   (\<And>d src. d \<in> set ds \<Longrightarrow> from_step d = Some src \<Longrightarrow> (k, src) \<in> E) \<Longrightarrow>
   edge_sound E g'"
proof (induction ds arbitrary: g)
  case Nil
  then show ?case by simp
next
  case (Cons d ds)
  from Cons.prems(1) obtain src where src: "from_step d = Some src"
    and rest: "graph_deps (graph_append g k src) k ds = Inr g'"
    by (auto split: option.splits)
  have "(k, src) \<in> E"
    using Cons.prems(3) [of d src] src by simp
  then have sound: "edge_sound E (graph_append g k src)"
    using Cons.prems(2) by (rule edge_sound_append [rotated])
  have "(k, src') \<in> E" if "d' \<in> set ds" "from_step d' = Some src'" for d' src'
    using Cons.prems(3) [of d' src'] that by simp
  with Cons.IH [OF rest sound] show ?case
    by blast
qed

lemma graph_deps_keys:
  "graph_deps g k ds = Inr g' \<Longrightarrow> fst ` set g' = fst ` set g"
proof (induction ds arbitrary: g)
  case Nil
  then show ?case by simp
next
  case (Cons d ds)
  from Cons.prems obtain src where "graph_deps (graph_append g k src) k ds = Inr g'"
    by (auto split: option.splits)
  from Cons.IH [OF this] show ?case
    by (simp add: graph_append_keys)
qed

lemma graph_deps_total:
  "\<forall>d \<in> set ds. from_step d \<noteq> None \<Longrightarrow> \<exists>g'. graph_deps g k ds = Inr g'"
  by (induction ds arbitrary: g) (auto split: option.splits)

lemma graph_steps_sound:
  "graph_steps g ss = Inr g' \<Longrightarrow> edge_sound E g \<Longrightarrow>
   (\<And>s d src. s \<in> set ss \<Longrightarrow> d \<in> set (dependencies s) \<Longrightarrow> from_step d = Some src \<Longrightarrow>
      (step_id s, src) \<in> E) \<Longrightarrow>
   edge_sound E g'"
proof (induction ss arbitrary: g)
  case Nil
  then show ?case by simp
next
  case (Cons s ss)
  from Cons.prems(1) obtain g1 where g1: "graph_deps g (step_id s) (dependencies s) = Inr g1"
    and rest: "graph_steps g1 ss = Inr g'"
    by (auto split: sum.splits)
  have "edge_sound E g1"
    using g1 Cons.prems(2)
  proof (rule graph_deps_sound)
    fix d src assume "d \<in> set (dependencies s)" "from_step d = Some src"
    then show "(step_id s, src) \<in> E"
      using Cons.prems(3) [of s d src] by simp
  qed
  from Cons.IH [OF rest this] Cons.prems(3) show ?case
    by simp
qed

lemma graph_steps_keys:
  "graph_steps g ss = Inr g' \<Longrightarrow> fst ` set g' = fst ` set g"
proof (induction ss arbitrary: g)
  case Nil
  then show ?case by simp
next
  case (Cons s ss)
  from Cons.prems obtain g1 where g1: "graph_deps g (step_id s) (dependencies s) = Inr g1"
    and rest: "graph_steps g1 ss = Inr g'"
    by (auto split: sum.splits)
  from Cons.IH [OF rest] graph_deps_keys [OF g1] show ?case
    by simp
qed

lemma graph_steps_total:
  "\<forall>s \<in> set ss. \<forall>d \<in> set (dependencies s). from_step d \<noteq> None \<Longrightarrow>
   \<exists>g'. graph_steps g ss = Inr g'"
proof (induction ss arbitrary: g)
  case Nil
  then show ?case by simp
next
  case (Cons s ss)
  from Cons.prems have "\<forall>d \<in> set (dependencies s). from_step d \<noteq> None"
    by simp
  from graph_deps_total [OF this, of g "step_id s"]
  obtain g1 where g1: "graph_deps g (step_id s) (dependencies s) = Inr g1"
    by blast
  from Cons.prems have "\<forall>s \<in> set ss. \<forall>d \<in> set (dependencies s). from_step d \<noteq> None"
    by simp
  from Cons.IH [OF this, of g1] g1 show ?case
    by simp
qed

lemma build_graph_keys: "build_graph ss = Inr g \<Longrightarrow> fst ` set g = step_id ` set ss"
  by (simp add: build_graph_def graph_steps_keys graph_init_keys)

lemma build_graph_sound:
  assumes "build_graph (steps p) = Inr g"
  shows "edge_sound (dep_edges p) g"
proof (rule graph_steps_sound)
  show "graph_steps (graph_init (steps p)) (steps p) = Inr g"
    using assms by (simp add: build_graph_def)
next
  show "edge_sound (dep_edges p) (graph_init (steps p))"
    by (auto simp: edge_sound_def dest: graph_init_vals)
next
  fix s d src
  assume "s \<in> set (steps p)" "d \<in> set (dependencies s)" "from_step d = Some src"
  then show "(step_id s, src) \<in> dep_edges p"
    by (rule dep_edgesI)
qed

lemma build_graph_total:
  assumes "validate_dependencies p = None"
  shows "\<exists>g. build_graph (steps p) = Inr g"
  unfolding build_graph_def
proof (rule graph_steps_total, intro ballI)
  fix s d assume sd: "s \<in> set (steps p)" "d \<in> set (dependencies s)"
  from assms have "check_steps (step_id ` set (steps p)) (steps p) = None"
    by (simp add: validate_dependencies_def)
  from check_steps_None [OF this sd] show "from_step d \<noteq> None"
    by auto
qed

lemma dfs_succeeds:
  assumes good: "\<And>k ps q. map_of g k = Some ps \<Longrightarrow> q \<in> set ps \<Longrightarrow> q < k \<and> q \<in> fst ` set g"
  shows "node \<in> fst ` set g \<Longrightarrow> (\<forall>s\<in>stack. node < s) \<Longrightarrow> \<exists>v. dfs g stack visited node = Inr v"
    and "(\<forall>n\<in>set nodes. n \<in> fst ` set g \<and> (\<forall>s\<in>stack. n < s)) \<Longrightarrow>
         \<exists>v. dfs_each g stack visited nodes = Inr v"
  using good
proof (induction g stack visited node and g stack visited nodes rule: dfs_dfs_each.induct)
  case (1 graph stack visited node)
  from "1.prems" have mem: "node \<in> fst ` set graph" and above: "\<forall>s\<in>stack. node < s"
    and good: "\<And>k ps q. map_of graph k = Some ps \<Longrightarrow> q \<in> set ps \<Longrightarrow> q < k \<and> q \<in> fst ` set graph"
    by blast+
  have not_on_stack: "node \<notin> stack"
    using above by auto
  show ?case
  proof (cases "node \<in> visited")
    case True
    with not_on_stack show ?thesis by simp
  next
    case False
    obtain parents where parents: "map_of graph node = Some parents"
      using mem by (cases "map_of graph node") (auto simp: map_of_eq_None_iff)
    have "\<forall>n\<in>set parents. n \<in> fst ` set graph \<and> (\<forall>s\<in>insert node stack. n < s)"
      using good [OF parents] above by fastforce
    then have "\<exists>v. dfs_each graph (insert node stack) visited parents = Inr v"
      by (rule "1.IH" [OF not_on_stack False parents]) (rule good)
    then obtain v where "dfs_each graph (insert node stack) visited parents = Inr v"
      by blast
    with not_on_stack False parents show ?thesis by simp
  qed
next
  case (2 graph stack visited)
  then show ?case by simp
next
  case (3 graph stack visited node rest)
  from "3.prems" have all: "\<forall>n\<in>set (node # rest). n \<in> fst ` set graph \<and> (\<forall>s\<in>stack. n < s)"
    and good: "\<And>k ps q. map_of graph k = Some ps \<Longrightarrow> q \<in> set ps \<Longrightarrow> q < k \<and> q \<in> fst ` set graph"
    by blast+
  from all have "node \<in> fst ` set graph" "\<forall>s\<in>stack. node < s"
    by auto
  then have "\<exists>v. dfs graph stack visited node = Inr v"
    by (rule "3.IH"(1)) (rule good)
  then obtain v where v: "dfs graph stack visited node = Inr v"
    by blast
  have "\<forall>n\<in>set rest. n \<in> fst ` set graph \<and> (\<forall>s\<in>stack. n < s)"
    using all by auto
  then have "\<exists>w. dfs_each graph stack v rest = Inr w"
    by (rule "3.IH"(2) [OF v]) (rule good)
  with v show ?case
    by simp
qed

lemma validated_graph_good:
  assumes "validate_dependencies p = None" and "build_graph (steps p) = Inr g"
    and "map_of g k = Some ps" and "q \<in> set ps"
  shows "q < k \<and> q \<in> fst ` set g"
proof -
  have "(k, q) \<in> dep_edges p"
    using build_graph_sound [OF assms(2)] assms(3,4) by (auto simp: edge_sound_def)
  from validated_edges_decrease [OF assms(1) this] show ?thesis
    by (simp add: build_graph_keys [OF assms(2)])
qed

lemma validated_no_cycles:
  assumes "validate_dependencies p = None"
  shows "validate_no_cycles p = None"
proof -
  from build_graph_total [OF assms] obtain g where g: "build_graph (steps p) = Inr g"
    by blast
  have "\<exists>v. dfs_each g {} {} (map fst g) = Inr v"
    by (rule dfs_succeeds(2) [of g]) (auto dest: validated_graph_good [OF assms g])
  then show ?thesis
    using g by (auto simp: validate_no_cycles_def)
qed






text \<open>
  The same cycle with dependency entries that lack the key \<open>from_field\<close>: the
  plan is rejected, but \<open>_validate_dependencies\<close> raises a \<open>KeyError\<close>, which is
  not a validation error and has no category.
\<close>

lemma cyclic_plan_key_error:
  "has_cycle bare_cyclic_plan \<and>
   validate_schema bare_cyclic_plan = None \<and> validate_fail_reason bare_cyclic_plan = None \<and>
   validate_plan permissive_checks bare_cyclic_plan ''what is the date in two days'' =
     Inl (DepKeyError ''from_field'')"
proof -
  have "(2, 3) \<in> dep_edges bare_cyclic_plan"
    using dep_edgesI [of "bare_dep_step 2 [3]" bare_cyclic_plan
        "\<lparr>from_step = Some 3, from_field = None, to_arg = Some ''base_datetime''\<rparr>" 3]
    by (simp add: bare_cyclic_plan_def plan_of_def bare_dep_step_def dep_step_def)
  moreover have "(3, 2) \<in> dep_edges bare_cyclic_plan"
    using dep_edgesI [of "bare_dep_step 3 [2]" bare_cyclic_plan
        "\<lparr>from_step = Some 2, from_field = None, to_arg = Some ''base_datetime''\<rparr>" 2]
    by (simp add: bare_cyclic_plan_def plan_of_def bare_dep_step_def dep_step_def)
  ultimately have "(2, 2) \<in> (dep_edges bare_cyclic_plan)\<^sup>+"
    by (rule trancl_into_trancl2 [OF _ r_into_trancl])
  then have "has_cycle bare_cyclic_plan"
    unfolding has_cycle_def by blast
  moreover have "validate_schema bare_cyclic_plan = None"
    "validate_fail_reason bare_cyclic_plan = None"
    "validate_plan permissive_checks bare_cyclic_plan ''what is the date in two days'' =
       Inl (DepKeyError ''from_field'')"
    by code_simp+
  ultimately show ?thesis by simp
qed


text \<open>
  C10: when \<open>_validate_dependencies\<close> passes, every edge of the dependency graph
  goes to a strictly smaller, existing step id, so the graph has no cycle and
  the depth-first search of \<open>_validate_no_cycles\<close> returns normally: it never
  meets a node that is on its stack, and never raises.
\<close>

theorem validated_dependencies_never_cyclic:
  "validate_dependencies p = None \<Longrightarrow> validate_no_cycles p = None \<and> \<not> has_cycle p"
  by (simp add: validated_no_cycles validated_acyclic)

theorem validated_dependencies_never_cyclic_witness:
  "validate_dependencies chain_plan = None \<and> validate_no_cycles chain_plan = None \<and>
   \<not> has_cycle chain_plan"
proof -
  have h: "validate_dependencies chain_plan = None"
    by code_simp
  show ?thesis
    using validated_dependencies_never_cyclic [OF h] h by simp
qed

subsection \<open>Recovery Loop\<close>

lemma recovery_step_cases:
  obtains
    (continue_retry) k t where
      "recovery_step env cfg ui st =
         Inl (st\<lparr>ls_retries := (ls_retries st)(k \<mapsto> count_of (ls_retries st) k + 1),
                 ls_tick := t, ls_trace := ls_trace st @ [Retried k]\<rparr>)"
      "count_of (ls_retries st) k + 1 \<le> MAX_RETRIES_PER_STEP cfg"
  | (continue_replan) plan' t where
      "recovery_step env cfg ui st =
         Inl (st\<lparr>ls_plan := plan', ls_replans := ls_replans st + 1,
                 ls_tick := t, ls_trace := ls_trace st @ [Replanned]\<rparr>)"
      "ls_replans st < MAX_REPLANS_PER_RUN cfg"
  | (return_exhausted) k r t where
      "recovery_step env cfg ui st =
         Inr (finish st r ((ls_retries st)(k \<mapsto> count_of (ls_retries st) k + 1))
                (ls_replans st) t (RetryExhausted k))"
  | (return_replan_failed) r t e where
      "recovery_step env cfg ui st =
         Inr (finish st r (ls_retries st) (ls_replans st + 1) t (ReplanFailed e))"
      "ls_replans st < MAX_REPLANS_PER_RUN cfg"
  | (return_other) r t d where
      "recovery_step env cfg ui st =
         Inr (finish st r (ls_retries st) (ls_replans st) t d)"
      "d = Succeeded \<or> d = ReplanExhausted \<or> d = TerminalStop"
proof -
  define run where "run = execute_plan (env_run_tool env) (ls_tick st) (ls_plan st)"
  define out where "out = er_result run"
  define k where "k = md_failed_step_id (metadata out)"
  define ft where "ft = classify_failure (case md_error (metadata out) of None \<Rightarrow> [] | Some m \<Rightarrow> m)
      (get_tool_name (steps (ls_plan st)) k)"
  note defs = recovery_step_def Let_def run_def [symmetric] out_def [symmetric]
    k_def [symmetric] ft_def [symmetric]
  show thesis
  proof (cases "execution_status out = Completed")
    case True
    show thesis
      by (rule return_other [where r = out and t = "er_tick run" and d = Succeeded]) (simp_all add: defs True)
  next
    case not_completed: False
    show thesis
    proof (cases ft)
      case TRANSIENT
      show thesis
      proof (cases "count_of (ls_retries st) k + 1 \<le> MAX_RETRIES_PER_STEP cfg")
        case True
        show thesis
          by (rule continue_retry [where k = k and t = "er_tick run"])
             (insert True, simp_all add: defs not_completed TRANSIENT)
      next
        case False
        show thesis
          by (rule return_exhausted [where r = out and k = k and t = "er_tick run"])
             (insert False, simp add: defs not_completed TRANSIENT)
      qed
    next
      case STRUCTURAL
      show thesis
      proof (cases "ls_replans st < MAX_REPLANS_PER_RUN cfg")
        case budget: True
        show thesis
        proof (cases "env_can_call env (er_tick run)")
          case False
          show thesis
            by (rule return_replan_failed [where r = out and t = "Suc (er_tick run)"
                  and e = "QuotaExceeded ''Quota exhausted during replanning phase''"])
               (simp_all add: defs not_completed STRUCTURAL budget False)
        next
          case quota: True
          show thesis
          proof (cases "replan_gateway env (Suc (er_tick run)) (ls_plan st) out ui")
            case (Inl e)
            show thesis
              by (rule return_replan_failed [where r = out and t = "Suc (Suc (er_tick run))" and e = e])
                 (simp_all add: defs not_completed STRUCTURAL budget quota Inl)
          next
            case (Inr plan')
            show thesis
              by (rule continue_replan [where plan' = plan' and t = "Suc (Suc (er_tick run))"])
                 (simp_all add: defs not_completed STRUCTURAL budget quota Inr)
          qed
        qed
      next
        case False
        show thesis
          by (rule return_other [where r = out and t = "er_tick run" and d = ReplanExhausted])
             (simp_all add: defs not_completed STRUCTURAL False)
      qed
    next
      case TERMINAL
      show thesis
        by (rule return_other [where r = out and t = "er_tick run" and d = TerminalStop])
           (simp_all add: defs not_completed TERMINAL)
    qed
  qed
qed

lemma count_of_update:
  "count_of (r(k \<mapsto> n)) j = (if j = k then n else count_of r j)"
  by (simp add: count_of_def)

lemma total_retries_update:
  assumes "finite (dom r)"
  shows "total_retries (r(k \<mapsto> count_of r k + 1)) = total_retries r + 1"
proof (cases "k \<in> dom r")
  case True
  then have dom: "dom (r(k \<mapsto> count_of r k + 1)) = dom r"
    by auto
  have "total_retries (r(k \<mapsto> count_of r k + 1)) =
      (count_of r k + 1) + (\<Sum>j \<in> dom r - {k}. count_of (r(k \<mapsto> count_of r k + 1)) j)"
    unfolding total_retries_def dom
    by (subst sum.remove [OF assms True]) (simp add: count_of_update)
  also have "(\<Sum>j \<in> dom r - {k}. count_of (r(k \<mapsto> count_of r k + 1)) j) =
      (\<Sum>j \<in> dom r - {k}. count_of r j)"
    by (rule sum.cong) (auto simp: count_of_update)
  finally have "total_retries (r(k \<mapsto> count_of r k + 1)) =
      (count_of r k + 1) + (\<Sum>j \<in> dom r - {k}. count_of r j)" .
  moreover have "total_retries r = count_of r k + (\<Sum>j \<in> dom r - {k}. count_of r j)"
    unfolding total_retries_def by (rule sum.remove [OF assms True])
  ultimately show ?thesis by linarith
next
  case False
  then have zero: "count_of r k = 0"
    by (auto simp: count_of_def split: option.splits)
  have "total_retries (r(k \<mapsto> count_of r k + 1)) =
      1 + (\<Sum>j \<in> dom r. count_of (r(k \<mapsto> count_of r k + 1)) j)"
    unfolding total_retries_def using assms False
    by (simp add: count_of_update zero)
  also have "(\<Sum>j \<in> dom r. count_of (r(k \<mapsto> count_of r k + 1)) j) = (\<Sum>j \<in> dom r. count_of r j)"
    using False by (intro sum.cong) (auto simp: count_of_update)
  finally have "total_retries (r(k \<mapsto> count_of r k + 1)) = 1 + (\<Sum>j \<in> dom r. count_of r j)" .
  moreover have "total_retries r = (\<Sum>j \<in> dom r. count_of r j)"
    by (simp add: total_retries_def)
  ultimately show ?thesis by linarith
qed

lemma total_retries_bound:
  assumes "\<And>k. count_of r k \<le> M"
  shows "total_retries r \<le> M * card (dom r)"
  unfolding total_retries_def
  using sum_bounded_above [of "dom r" "count_of r" M] assms by (simp add: mult.commute)

lemma loop_inv_initial:
  "loop_inv cfg \<lparr>ls_plan = p, ls_retries = Map.empty, ls_replans = 0, ls_tick = t, ls_trace = []\<rparr>"
  by (simp add: loop_inv_def count_of_def total_retries_def)

lemma step_continue_inv:
  assumes "loop_inv cfg st" and "recovery_step env cfg ui st = Inl st'"
  shows "loop_inv cfg st'"
proof (cases rule: recovery_step_cases [where env = env and cfg = cfg and ui = ui and st = st])
  case (continue_retry k t)
  with assms(2) have st': "st' = st\<lparr>ls_retries := (ls_retries st)(k \<mapsto> count_of (ls_retries st) k + 1),
                 ls_tick := t, ls_trace := ls_trace st @ [Retried k]\<rparr>"
    by simp
  have fin: "finite (dom (ls_retries st))"
    using assms(1) by (simp add: loop_inv_def)
  have total: "total_retries (ls_retries st') = total_retries (ls_retries st) + 1"
    unfolding st' using total_retries_update [OF fin, of k] by simp
  have count: "count_of (ls_retries st') j =
      (if j = k then count_of (ls_retries st) k + 1 else count_of (ls_retries st) j)" for j
    unfolding st' by (simp add: count_of_update)
  have trace: "ls_trace st' = ls_trace st @ [Retried k]" and replans: "ls_replans st' = ls_replans st"
    and dom: "dom (ls_retries st') = insert k (dom (ls_retries st))"
    unfolding st' by simp_all
  show ?thesis
    using assms(1) continue_retry(2) fin
    unfolding loop_inv_def total count trace replans dom
    by auto
next
  case (continue_replan plan' t)
  with assms(2) have st': "st' = st\<lparr>ls_plan := plan', ls_replans := ls_replans st + 1,
                 ls_tick := t, ls_trace := ls_trace st @ [Replanned]\<rparr>"
    by simp
  show ?thesis
    using assms(1) continue_replan(2) unfolding loop_inv_def st' by auto
qed (use assms(2) in simp_all)

lemma step_return_ok:
  assumes "loop_inv cfg st" and "recovery_step env cfg ui st = Inr outcome"
  shows "outcome_ok cfg outcome"
proof -
  have len: "length (ls_trace st) \<le> MAX_REPLANS_PER_RUN cfg
      + MAX_RETRIES_PER_STEP cfg * card (dom (ls_retries st))"
    using assms(1) total_retries_bound [of "ls_retries st" "MAX_RETRIES_PER_STEP cfg"]
    unfolding loop_inv_def by auto
  have fin: "finite (dom (ls_retries st))"
    using assms(1) by (simp add: loop_inv_def)
  show ?thesis
  proof (cases rule: recovery_step_cases [where env = env and cfg = cfg and ui = ui and st = st])
    case (return_exhausted k r t)
    have "card (dom (ls_retries st)) \<le> card (insert k (dom (ls_retries st)))"
      using fin by (intro card_mono) auto
    then have "MAX_RETRIES_PER_STEP cfg * card (dom (ls_retries st))
        \<le> MAX_RETRIES_PER_STEP cfg * card (insert k (dom (ls_retries st)))"
      by (rule mult_le_mono2)
    with len have "length (ls_trace st) \<le> MAX_REPLANS_PER_RUN cfg
        + MAX_RETRIES_PER_STEP cfg * card (insert k (dom (ls_retries st)))"
      by linarith
    with return_exhausted assms show ?thesis
      unfolding outcome_ok_def loop_inv_def finish_def
      by (auto simp: count_of_update)
  next
    case (return_replan_failed r t e)
    with len assms show ?thesis
      unfolding outcome_ok_def loop_inv_def finish_def by auto
  next
    case (return_other r t d)
    with len assms show ?thesis
      unfolding outcome_ok_def loop_inv_def finish_def by auto
  qed (use assms(2) in simp_all)
qed

lemma run_loop_ok:
  "loop_inv cfg st \<Longrightarrow> outcome_ok cfg (run_loop env cfg ui st)"
proof (induction env cfg ui st rule: run_loop.induct)
  case (1 env cfg ui st)
  show ?case
  proof (cases "recovery_step env cfg ui st")
    case (Inl st')
    from step_continue_inv [OF "1.prems" Inl] have "loop_inv cfg st'" .
    from "1.IH" [OF Inl this] Inl show ?thesis
      by (simp del: run_loop.simps add: run_loop.simps [of env cfg ui st])
  next
    case (Inr outcome)
    from step_return_ok [OF "1.prems" Inr] Inr show ?thesis
      by (simp del: run_loop.simps add: run_loop.simps [of env cfg ui st])
  qed
qed

lemma run_with_recovery_ok: "outcome_ok cfg (run_with_recovery env cfg t ui p)"
  unfolding run_with_recovery_def by (rule run_loop_ok [OF loop_inv_initial])

text \<open>
  C1 (as stated, refuted): with the limits of app/config.py the bound of the
  claim is 2 * (1 + 1) = 4. On a two-step plan whose first step times out twice
  and whose second step times out ever after, the loop runs the Executor five
  times: the retry counts are kept per step id.
\<close>

theorem five_executor_runs:
  "ro_trace (run_with_recovery flaky_env app_config 0 ''add'' (example_plan [1, 2])) =
     [Retried (Some 1), Retried (Some 1), Retried (Some 2), Retried (Some 2),
      RetryExhausted (Some 2)] \<and>
   \<not> length (ro_trace (run_with_recovery flaky_env app_config 0 ''add'' (example_plan [1, 2])))
       \<le> MAX_RETRIES_PER_STEP app_config * (MAX_REPLANS_PER_RUN app_config + 1)"
proof -
  have "ro_trace (run_with_recovery flaky_env app_config 0 ''add'' (example_plan [1, 2])) =
     [Retried (Some 1), Retried (Some 1), Retried (Some 2), Retried (Some 2),
      RetryExhausted (Some 2)]"
    by code_simp
  then show ?thesis
    by (simp add: app_config_def)
qed

text \<open>
  C1 (amended): \<open>run_with_recovery\<close> returns on every plan and every behaviour
  of the collaborators (it is a total function), after at most
  1 + max\_replans\_per\_run + max\_retries\_per\_step * d Executor runs, where d is the
  number of distinct keys (failed step ids, or none) that failed transiently
  during the run.
\<close>

theorem executor_runs_bounded:
  "length (ro_trace (run_with_recovery env cfg t ui p))
     \<le> 1 + MAX_REPLANS_PER_RUN cfg
        + MAX_RETRIES_PER_STEP cfg * card (dom (ro_retries (run_with_recovery env cfg t ui p)))"
  using run_with_recovery_ok [of cfg env t ui p] by (simp add: outcome_ok_def)

text \<open>
  C9: the retry counts are kept per \<open>failed_step_id\<close> for the whole run. Over
  all plans executed, a key is retried at most max\_retries\_per\_step times, and
  its final count in \<open>retries\<close> is the number of its transient failures in
  the whole run, before and after any replan.
\<close>

theorem retry_budget_per_step_id:
  "count_list (ro_trace (run_with_recovery env cfg t ui p)) (Retried k) \<le> MAX_RETRIES_PER_STEP cfg \<and>
   count_of (ro_retries (run_with_recovery env cfg t ui p)) k =
     count_list (ro_trace (run_with_recovery env cfg t ui p)) (Retried k) +
     count_list (ro_trace (run_with_recovery env cfg t ui p)) (RetryExhausted k)"
  using run_with_recovery_ok [of cfg env t ui p] by (simp add: outcome_ok_def)

theorem retry_budget_per_step_id_witness:
  "ro_trace (run_with_recovery scripted_env app_config 0 ''add'' (example_plan [1])) =
     [Retried (Some 1), Retried (Some 1), Replanned, RetryExhausted (Some 1)] \<and>
   count_list (ro_trace (run_with_recovery scripted_env app_config 0 ''add'' (example_plan [1])))
     (Retried (Some 1)) \<le> MAX_RETRIES_PER_STEP app_config \<and>
   count_of (ro_retries (run_with_recovery scripted_env app_config 0 ''add'' (example_plan [1])))
     (Some 1) = 3"
proof -
  have "ro_trace (run_with_recovery scripted_env app_config 0 ''add'' (example_plan [1])) =
     [Retried (Some 1), Retried (Some 1), Replanned, RetryExhausted (Some 1)]"
    by code_simp
  then show ?thesis
    using retry_budget_per_step_id [of scripted_env app_config 0 "''add''" "example_plan [1]" "Some 1"]
    by simp
qed

text \<open>
  C8 (the code at the failing input): the only step fails with a structural
  error and the quota is exhausted when the loop is about to replan. The loop
  returns the ordinary failed result of the Executor; the exception is caught
  inside the loop, and \<open>replans\<close> is 1 when it returns.
\<close>

theorem quota_exhaustion_swallowed:
  "ro_trace (run_with_recovery no_quota_env app_config 0 ''add'' (example_plan [1])) =
     [ReplanFailed (QuotaExceeded ''Quota exhausted during replanning phase'')] \<and>
   ro_replans (run_with_recovery no_quota_env app_config 0 ''add'' (example_plan [1])) = 1 \<and>
   ro_result (run_with_recovery no_quota_env app_config 0 ''add'' (example_plan [1])) =
     er_result (execute_plan invalid_arg_tool 0 (example_plan [1])) \<and>
   execution_status (ro_result (run_with_recovery no_quota_env app_config 0 ''add'' (example_plan [1])))
     = Failed"
  by code_simp

lemma recovery_step_transient:
  assumes "fails_transiently_at (ls_plan st) k
             (er_result (execute_plan (env_run_tool env) (ls_tick st) (ls_plan st)))"
  shows "recovery_step env cfg ui st =
     (if count_of (ls_retries st) (Some k) + 1 \<le> MAX_RETRIES_PER_STEP cfg
      then Inl (st\<lparr>ls_retries := (ls_retries st)(Some k \<mapsto> count_of (ls_retries st) (Some k) + 1),
                   ls_tick := er_tick (execute_plan (env_run_tool env) (ls_tick st) (ls_plan st)),
                   ls_trace := ls_trace st @ [Retried (Some k)]\<rparr>)
      else Inr (finish st (er_result (execute_plan (env_run_tool env) (ls_tick st) (ls_plan st)))
                  ((ls_retries st)(Some k \<mapsto> count_of (ls_retries st) (Some k) + 1))
                  (ls_replans st)
                  (er_tick (execute_plan (env_run_tool env) (ls_tick st) (ls_plan st)))
                  (RetryExhausted (Some k))))"
  using assms unfolding fails_transiently_at_def recovery_step_def Let_def
  by simp

lemma transient_loop:
  assumes always: "\<And>tick. fails_transiently_at plan k
      (er_result (execute_plan (env_run_tool env) tick plan))"
    and calls: "\<And>tick. er_tick (execute_plan (env_run_tool env) tick plan) = tick + c"
  shows "ls_plan st = plan \<Longrightarrow> MAX_RETRIES_PER_STEP cfg - count_of (ls_retries st) (Some k) = n \<Longrightarrow>
     count_of (ls_retries st) (Some k) \<le> MAX_RETRIES_PER_STEP cfg \<Longrightarrow>
     ro_trace (run_loop env cfg ui st) =
       ls_trace st @ replicate n (Retried (Some k)) @ [RetryExhausted (Some k)] \<and>
     ro_plan (run_loop env cfg ui st) = plan \<and>
     ro_replans (run_loop env cfg ui st) = ls_replans st \<and>
     ro_result (run_loop env cfg ui st) =
       er_result (execute_plan (env_run_tool env) (ls_tick st + n * c) plan) \<and>
     ro_tick (run_loop env cfg ui st) = ls_tick st + Suc n * c"
proof (induction n arbitrary: st)
  case 0
  then have "\<not> count_of (ls_retries st) (Some k) + 1 \<le> MAX_RETRIES_PER_STEP cfg"
    by simp
  with recovery_step_transient [of st k env cfg ui] always [of "ls_tick st"] "0.prems"(1)
  have "recovery_step env cfg ui st =
      Inr (finish st (er_result (execute_plan (env_run_tool env) (ls_tick st) (ls_plan st)))
                  ((ls_retries st)(Some k \<mapsto> count_of (ls_retries st) (Some k) + 1))
                  (ls_replans st)
                  (er_tick (execute_plan (env_run_tool env) (ls_tick st) (ls_plan st)))
                  (RetryExhausted (Some k)))"
    by simp
  then show ?case
    using "0.prems"(1) calls [of "ls_tick st"] by (auto simp: finish_def)
next
  case (Suc n)
  let ?st' = "st\<lparr>ls_retries := (ls_retries st)(Some k \<mapsto> count_of (ls_retries st) (Some k) + 1),
                   ls_tick := er_tick (execute_plan (env_run_tool env) (ls_tick st) (ls_plan st)),
                   ls_trace := ls_trace st @ [Retried (Some k)]\<rparr>"
  from Suc.prems have "count_of (ls_retries st) (Some k) + 1 \<le> MAX_RETRIES_PER_STEP cfg"
    by simp
  with recovery_step_transient [of st k env cfg ui] always [of "ls_tick st"] Suc.prems(1)
  have step: "recovery_step env cfg ui st = Inl ?st'"
    by simp
  have tick': "ls_tick ?st' = ls_tick st + c"
    using calls [of "ls_tick st"] Suc.prems(1) by simp
  have "ls_plan ?st' = plan"
    using Suc.prems(1) by simp
  moreover have "MAX_RETRIES_PER_STEP cfg - count_of (ls_retries ?st') (Some k) = n"
    using Suc.prems(2) by (simp add: count_of_update)
  moreover have "count_of (ls_retries ?st') (Some k) \<le> MAX_RETRIES_PER_STEP cfg"
    using Suc.prems(2) by (simp add: count_of_update)
  ultimately have "ro_trace (run_loop env cfg ui ?st') =
       ls_trace ?st' @ replicate n (Retried (Some k)) @ [RetryExhausted (Some k)] \<and>
     ro_plan (run_loop env cfg ui ?st') = plan \<and>
     ro_replans (run_loop env cfg ui ?st') = ls_replans ?st' \<and>
     ro_result (run_loop env cfg ui ?st') =
       er_result (execute_plan (env_run_tool env) (ls_tick ?st' + n * c) plan) \<and>
     ro_tick (run_loop env cfg ui ?st') = ls_tick ?st' + Suc n * c"
    by (rule Suc.IH)
  moreover have "run_loop env cfg ui st = run_loop env cfg ui ?st'"
    by (subst run_loop.simps) (simp add: step)
  ultimately show ?case
    using tick' by (simp add: replicate_app_Cons_same add.assoc del: run_loop.simps)
qed

lemma resolve_dependencies_ok:
  "has_values ids st \<Longrightarrow> list_all (resolvable ids) ds \<Longrightarrow>
   \<exists>resolved. resolve_dependencies st args ds = Inr resolved"
proof (induction ds arbitrary: args)
  case Nil
  then show ?case by simp
next
  case (Cons d ds)
  from Cons.prems(2) have d: "resolvable ids d" and rest: "list_all (resolvable ids) ds"
    by simp_all
  from d obtain src dst where keys: "from_step d = Some src" "to_arg d = Some dst"
    and src: "src \<in> ids"
    by (auto simp: resolvable_def split: option.splits)
  from Cons.prems(1) src obtain stored v where "st src = Some stored" "tr_data stored = DataValue v"
    unfolding has_values_def by fastforce
  with Cons.IH [OF Cons.prems(1) rest, of "dict_set args dst v"] keys
  show ?case by simp
qed

lemma execute_single_step_resolved:
  assumes "has_values ids st" "list_all (resolvable ids) (dependencies s)"
  shows "\<exists>args. execute_single_step rt st tick s =
     (case rt tick (tool_name s) args (step_id s) of
        Raises m \<Rightarrow> (Inl (OtherError m), Suc tick)
      | Returns r \<Rightarrow>
          (Inr \<lparr>sr_step_id = step_id s, sr_tool_name = tool_name s,
                sr_success = tr_success r, sr_data = r\<rparr>, Suc tick))"
proof (cases "dependencies s = []")
  case True
  then show ?thesis
    unfolding execute_single_step_def by auto
next
  case False
  from resolve_dependencies_ok [OF assms, of "tool_args s"]
  obtain resolved where "resolve_dependencies st (tool_args s) (dependencies s) = Inr resolved"
    by blast
  with False show ?thesis
    unfolding execute_single_step_def by auto
qed

lemma classify_tool_name: "classify_failure m tn = classify_failure m tn'"
  by (simp add: classify_eq)

lemma classify_empty: "classify_failure [] tn = STRUCTURAL"
  by (simp add: classify_failure_def)

lemma execute_steps_fails_at:
  assumes pre_ok: "\<forall>s' \<in> set pre. tool_succeeds rt s'"
    and fails: "tool_fails_transiently rt s"
  shows "has_values ids st \<Longrightarrow> deps_earlier ids (pre @ [s]) \<Longrightarrow>
     fails_transiently_at plan (step_id s)
       (er_result (execute_steps rt (pre @ s # post) st results executed tick)) \<and>
     er_tick (execute_steps rt (pre @ s # post) st results executed tick) =
       tick + (length pre + 1)"
  using pre_ok
proof (induction pre arbitrary: ids st results executed tick)
  case Nil
  from Nil.prems have deps: "list_all (resolvable ids) (dependencies s)"
    by simp
  from execute_single_step_resolved [OF Nil.prems(1) deps, of rt tick]
  obtain args where step: "execute_single_step rt st tick s =
     (case rt tick (tool_name s) args (step_id s) of
        Raises m \<Rightarrow> (Inl (OtherError m), Suc tick)
      | Returns r \<Rightarrow>
          (Inr \<lparr>sr_step_id = step_id s, sr_tool_name = tool_name s,
                sr_success = tr_success r, sr_data = r\<rparr>, Suc tick))"
    by blast
  from fails obtain r m where r: "rt tick (tool_name s) args (step_id s) = Returns r"
    "\<not> tr_success r" "tr_error r = ErrStr m" "classify_failure m (Some (tool_name s)) = TRANSIENT"
    unfolding tool_fails_transiently_def by blast
  from r(4) have "m \<noteq> []"
    using classify_empty by auto
  with step r show ?case
    using classify_tool_name [of m "get_tool_name (steps plan) (Some (step_id s))" "Some (tool_name s)"]
    by (simp add: fails_transiently_at_def create_failed_result_def no_metadata_def)
next
  case (Cons s' pre)
  from Cons.prems have deps: "list_all (resolvable ids) (dependencies s')"
    and rest: "deps_earlier (insert (step_id s') ids) (pre @ [s])"
    and ok: "tool_succeeds rt s'" and pre_ok: "\<forall>x \<in> set pre. tool_succeeds rt x"
    by simp_all
  from execute_single_step_resolved [OF Cons.prems(1) deps, of rt tick]
  obtain args where step: "execute_single_step rt st tick s' =
     (case rt tick (tool_name s') args (step_id s') of
        Raises m \<Rightarrow> (Inl (OtherError m), Suc tick)
      | Returns r \<Rightarrow>
          (Inr \<lparr>sr_step_id = step_id s', sr_tool_name = tool_name s',
                sr_success = tr_success r, sr_data = r\<rparr>, Suc tick))"
    by blast
  from ok obtain r v where r: "rt tick (tool_name s') args (step_id s') = Returns r"
    "tr_success r" "tr_data r = DataValue v"
    unfolding tool_succeeds_def by blast
  have "has_values (insert (step_id s') ids) (store st (step_id s') r)"
    using Cons.prems(1) r(3) unfolding has_values_def store_def by auto
  from Cons.IH [OF this rest pre_ok] step r show ?case
    by simp
qed

text \<open>
  C3 (as stated, refuted): the limit is 2 and the tool of step 2 of the plan
  times out on every call, a TRANSIENT error. The tool of step 1 times out on
  the first call only, so the first run fails at step 1 and the retries of step
  2 start with the second run: the Executor runs four times, not three.
\<close>

theorem transient_step_reached_late:
  "plan_status (example_plan [1, 2]) \<noteq> ''impossible'' \<and>
   example_step 2 \<in> set (steps (example_plan [1, 2])) \<and>
   tool_fails_transiently (env_run_tool slow_start_env) (example_step 2) \<and>
   MAX_RETRIES_PER_STEP app_config = 2 \<and>
   ro_trace (run_with_recovery slow_start_env app_config 0 ''add'' (example_plan [1, 2])) =
     [Retried (Some 1), Retried (Some 2), Retried (Some 2), RetryExhausted (Some 2)] \<and>
   length (ro_trace (run_with_recovery slow_start_env app_config 0 ''add'' (example_plan [1, 2])))
     = 4"
proof -
  have c: "classify_failure ''Connection timeout'' (Some ''calculator'') = TRANSIENT"
    by code_simp
  have fails: "tool_fails_transiently (env_run_tool slow_start_env) (example_step 2)"
    by (simp add: tool_fails_transiently_def slow_start_env_def slow_start_tool_def
        example_step_def timeout_result_def tool_response_def c)
  have trace: "ro_trace (run_with_recovery slow_start_env app_config 0 ''add'' (example_plan [1, 2])) =
     [Retried (Some 1), Retried (Some 2), Retried (Some 2), RetryExhausted (Some 2)]"
    by code_simp
  from fails trace show ?thesis
    by (simp add: example_plan_def app_config_def)
qed

text \<open>
  C3 (amended): let a plan that is not impossible hold a step whose tool fails
  on every call with an error classified TRANSIENT, and let every run reach
  that step: the tools of the steps before it succeed on every call, and the
  dependencies up to it carry their keys and name earlier steps. Then
  \<open>run_with_recovery\<close> runs the Executor exactly 1 + max\_retries\_per\_step times
  (3 times when the limit is 2), every time on the same plan and without a
  replan. Every run makes one tool call for each step up to the failing one, so
  the runs start at the ticks \<open>t\<close>, \<open>t + c\<close>, \<open>t + 2c\<close>, ... where \<open>c\<close> is the
  number of those steps; the result returned is the result of the last run, the
  one started at tick \<open>t + max_retries_per_step * c\<close>, no tool is called after
  that run, and the result has status failed and names the failing step.
\<close>

theorem persistent_transient_failure:
  assumes "plan_status plan \<noteq> ''impossible''"
    and "steps plan = pre @ s # post"
    and "deps_earlier {} (pre @ [s])"
    and "\<forall>s' \<in> set pre. tool_succeeds (env_run_tool env) s'"
    and "tool_fails_transiently (env_run_tool env) s"
  shows "length (ro_trace (run_with_recovery env cfg t ui plan)) = 1 + MAX_RETRIES_PER_STEP cfg \<and>
    (MAX_RETRIES_PER_STEP cfg = 2 \<longrightarrow> length (ro_trace (run_with_recovery env cfg t ui plan)) = 3) \<and>
    ro_trace (run_with_recovery env cfg t ui plan) =
      replicate (MAX_RETRIES_PER_STEP cfg) (Retried (Some (step_id s))) @
      [RetryExhausted (Some (step_id s))] \<and>
    ro_plan (run_with_recovery env cfg t ui plan) = plan \<and>
    ro_replans (run_with_recovery env cfg t ui plan) = 0 \<and>
    ro_result (run_with_recovery env cfg t ui plan) =
      er_result (execute_plan (env_run_tool env)
                   (t + MAX_RETRIES_PER_STEP cfg * (length pre + 1)) plan) \<and>
    ro_tick (run_with_recovery env cfg t ui plan) =
      t + (1 + MAX_RETRIES_PER_STEP cfg) * (length pre + 1) \<and>
    execution_status (ro_result (run_with_recovery env cfg t ui plan)) = Failed \<and>
    md_failed_step_id (metadata (ro_result (run_with_recovery env cfg t ui plan))) = Some (step_id s)"
proof -
  have run: "fails_transiently_at plan (step_id s)
      (er_result (execute_plan (env_run_tool env) tick plan)) \<and>
    er_tick (execute_plan (env_run_tool env) tick plan) = tick + (length pre + 1)" for tick
    unfolding execute_plan_def using assms(1,2)
      execute_steps_fails_at [OF assms(4,5) _ assms(3), of new_state plan post "[]" 0 tick]
    by (simp add: has_values_def)
  then have always: "fails_transiently_at plan (step_id s)
      (er_result (execute_plan (env_run_tool env) tick plan))"
    and calls: "er_tick (execute_plan (env_run_tool env) tick plan) = tick + (length pre + 1)"
    for tick
    by simp_all
  let ?st = "\<lparr>ls_plan = plan, ls_retries = Map.empty, ls_replans = 0, ls_tick = t, ls_trace = []\<rparr>"
  have loop: "ro_trace (run_loop env cfg ui ?st) =
       ls_trace ?st @ replicate (MAX_RETRIES_PER_STEP cfg) (Retried (Some (step_id s))) @
         [RetryExhausted (Some (step_id s))] \<and>
     ro_plan (run_loop env cfg ui ?st) = plan \<and>
     ro_replans (run_loop env cfg ui ?st) = ls_replans ?st \<and>
     ro_result (run_loop env cfg ui ?st) =
       er_result (execute_plan (env_run_tool env)
                    (ls_tick ?st + MAX_RETRIES_PER_STEP cfg * (length pre + 1)) plan) \<and>
     ro_tick (run_loop env cfg ui ?st) =
       ls_tick ?st + Suc (MAX_RETRIES_PER_STEP cfg) * (length pre + 1)"
    by (rule transient_loop [OF always calls]) (simp_all add: count_of_def)
  from always [of "t + MAX_RETRIES_PER_STEP cfg * (length pre + 1)"] loop show ?thesis
    unfolding run_with_recovery_def fails_transiently_at_def by simp
qed

theorem persistent_transient_failure_witness:
  "plan_status two_step_plan \<noteq> ''impossible'' \<and>
   steps two_step_plan = [dep_step 1 []] @ dep_step 2 [1] # [] \<and>
   deps_earlier {} ([dep_step 1 []] @ [dep_step 2 [1]]) \<and>
   tool_succeeds (env_run_tool second_fails_env) (dep_step 1 []) \<and>
   tool_fails_transiently (env_run_tool second_fails_env) (dep_step 2 [1]) \<and>
   MAX_RETRIES_PER_STEP app_config = 2 \<and>
   ro_trace (run_with_recovery second_fails_env app_config 0 ''date'' two_step_plan) =
     [Retried (Some 2), Retried (Some 2), RetryExhausted (Some 2)] \<and>
   length (ro_trace (run_with_recovery second_fails_env app_config 0 ''date'' two_step_plan)) = 3 \<and>
   ro_result (run_with_recovery second_fails_env app_config 0 ''date'' two_step_plan) =
     er_result (execute_plan second_step_fails 4 two_step_plan) \<and>
   ro_tick (run_with_recovery second_fails_env app_config 0 ''date'' two_step_plan) = 6 \<and>
   execution_status (ro_result (run_with_recovery second_fails_env app_config 0 ''date'' two_step_plan))
     = Failed"
proof -
  have h1: "plan_status two_step_plan \<noteq> ''impossible''"
    by (simp add: two_step_plan_def plan_of_def)
  have h2: "steps two_step_plan = [dep_step 1 []] @ dep_step 2 [1] # []"
    by (simp add: two_step_plan_def plan_of_def)
  have h3: "deps_earlier {} ([dep_step 1 []] @ [dep_step 2 [1]])"
    by (simp add: dep_step_def dep_def resolvable_def)
  have h4: "\<forall>s' \<in> set [dep_step 1 []]. tool_succeeds (env_run_tool second_fails_env) s'"
    by (simp add: tool_succeeds_def second_fails_env_def second_step_fails_def dep_step_def
        ok_result_def tool_response_def)
  have c: "classify_failure ''Connection timeout'' (Some ''datetime'') = TRANSIENT"
    by code_simp
  have h5: "tool_fails_transiently (env_run_tool second_fails_env) (dep_step 2 [1])"
    by (simp add: tool_fails_transiently_def second_fails_env_def second_step_fails_def dep_step_def
        timeout_result_def tool_response_def c)
  have h4': "tool_succeeds (env_run_tool second_fails_env) (dep_step 1 [])"
    using h4 by simp
  have m: "MAX_RETRIES_PER_STEP app_config = 2"
    by (simp add: app_config_def)
  have sid: "step_id (dep_step 2 [1]) = 2"
    by (simp add: dep_step_def)
  have rt: "env_run_tool second_fails_env = second_step_fails"
    by (simp add: second_fails_env_def)
  note run = persistent_transient_failure [OF h1 h2 h3 h4 h5, of app_config 0 "''date''"]
  from run have "ro_trace (run_with_recovery second_fails_env app_config 0 ''date'' two_step_plan) =
      replicate (MAX_RETRIES_PER_STEP app_config) (Retried (Some (step_id (dep_step 2 [1])))) @
      [RetryExhausted (Some (step_id (dep_step 2 [1])))]"
    by blast
  then have trace: "ro_trace (run_with_recovery second_fails_env app_config 0 ''date'' two_step_plan) =
      [Retried (Some 2), Retried (Some 2), RetryExhausted (Some 2)]"
    by (simp add: m sid numeral_2_eq_2)
  from run have status:
    "execution_status (ro_result (run_with_recovery second_fails_env app_config 0 ''date'' two_step_plan))
       = Failed"
    by blast
  from run have "ro_result (run_with_recovery second_fails_env app_config 0 ''date'' two_step_plan) =
      er_result (execute_plan (env_run_tool second_fails_env)
                   (0 + MAX_RETRIES_PER_STEP app_config * (length [dep_step 1 []] + 1))
                   two_step_plan)"
    by blast
  then have result: "ro_result (run_with_recovery second_fails_env app_config 0 ''date'' two_step_plan) =
      er_result (execute_plan second_step_fails 4 two_step_plan)"
    by (simp add: m rt)
  from run have "ro_tick (run_with_recovery second_fails_env app_config 0 ''date'' two_step_plan) =
      0 + (1 + MAX_RETRIES_PER_STEP app_config) * (length [dep_step 1 []] + 1)"
    by blast
  then have tick: "ro_tick (run_with_recovery second_fails_env app_config 0 ''date'' two_step_plan) = 6"
    by (simp add: m)
  from h1 h2 h3 h4' h5 m trace status result tick show ?thesis
    by simp
qed

end
